theory Spec2Isabelle
  imports Main "HOL-Library.Word" "HOL-Library.Multiset"
begin

section \<open>Data model\<close>

text \<open>
  The vault stores opaque encrypted payloads. A payload is a Go \<^verbatim>\<open>[]byte\<close>. A Go
  \<^verbatim>\<open>time.Time\<close> is an instant, counted here in nanoseconds relative to the Unix epoch; it
  may lie before the epoch (the zero value \<^verbatim>\<open>time.Time{}\<close> is the first instant of year 1).
  A value of a \<^verbatim>\<open>TIMESTAMP\<close> column cannot lie before the epoch, so the two timestamp
  columns are natural numbers in the same unit.
\<close>

type_synonym bytes = "8 word list"
type_synonym time = int

definition zero_time :: time where
  "zero_time = - 62135596800000000000"

text \<open>
  A row of table \<^verbatim>\<open>vault_entries\<close> (\<^verbatim>\<open>migrations/002_create_vault_entries.sql\<close>). The
  surrogate key \<^verbatim>\<open>id\<close> is assigned by the storage engine, occurs in no \<^verbatim>\<open>WHERE\<close> clause and
  is dropped by \<^verbatim>\<open>entriesToResponse\<close>; it is left out, here and in \<open>VaultEntry\<close>. The table is
  the list of its rows in insertion order. The unique index \<^verbatim>\<open>idx_user_entry\<close> is on
  \<open>(user_id, entry_id)\<close>; identifiers compare as byte strings.
\<close>

record row =
  user_id :: int
  entry_id :: string
  encrypted_data :: bytes
  version :: int
  created_at :: nat
  updated_at :: nat
  deleted :: bool

type_synonym table = "row list"

text \<open>The Go structs of internal/model/vault.go.\<close>

record VaultEntry =
  UserID :: int
  EntryID :: string
  EncryptedData :: bytes
  Version :: int
  CreatedAt :: time
  UpdatedAt :: time
  Deleted :: bool

record VaultEntryRequest =
  EntryID :: string
  EncryptedData :: string
  Version :: int
  Deleted :: bool

record VaultEntryResponse =
  EntryID :: string
  EncryptedData :: string
  Version :: int
  UpdatedAt :: time
  Deleted :: bool

record SyncRequest =
  LastSyncedAt :: "time option"
  Entries :: "VaultEntryRequest list"

record SyncResponse =
  SyncedAt :: time
  Entries :: "VaultEntryResponse list"
  Skipped :: int

text \<open>
  The errors the service and the repository return. \<open>ErrDriver\<close> stands for any error
  that \<^verbatim>\<open>database/sql\<close> hands back from the server or the connection; \<open>CorruptInputError\<close>
  is the error of \<^verbatim>\<open>base64.StdEncoding.DecodeString\<close>.
\<close>

datatype error =
    ErrEntryIDRequired
  | ErrEncryptedDataRequired
  | ErrEntryNotFound
  | CorruptInputError
  | ErrDriver

text \<open>
  What a statement sent to the database does is not decided by the program: either the
  driver returns an error and the statement has no effect (a lost connection, a timeout,
  a missing owner, or a value that does not fit its column, which the strict SQL mode of
  MySQL 8 rejects), or the statement is executed, at a moment when \<^verbatim>\<open>CURRENT_TIMESTAMP\<close>
  has some value. Versions are therefore unbounded integers here.
\<close>

datatype exec = Failed | Executed nat

text \<open>
  The value of \<^verbatim>\<open>CURRENT_TIMESTAMP\<close> when the clock of the database reads \<open>t\<close>. The columns
  \<^verbatim>\<open>created_at\<close> and \<^verbatim>\<open>updated_at\<close> are declared \<^verbatim>\<open>TIMESTAMP\<close> without fractional
  seconds, and \<^verbatim>\<open>CURRENT_TIMESTAMP\<close> without argument has none: it is the reading of the
  clock cut down to the whole second.
\<close>

definition CURRENT_TIMESTAMP :: "time \<Rightarrow> nat" where
  "CURRENT_TIMESTAMP t = nat (t div 1000000000) * 1000000000"

section \<open>The repository (internal/repository/vault.go)\<close>

definition key_is :: "int \<Rightarrow> string \<Rightarrow> row \<Rightarrow> bool" where
  "key_is uid eid r \<longleftrightarrow> user_id r = uid \<and> entry_id r = eid"

text \<open>The row selected by \<^verbatim>\<open>WHERE user_id = ? AND entry_id = ?\<close>.\<close>

definition find_row :: "table \<Rightarrow> int \<Rightarrow> string \<Rightarrow> row option" where
  "find_row tbl uid eid = find (key_is uid eid) tbl"

text \<open>
  The \<^verbatim>\<open>INSERT\<close> branch of \<^verbatim>\<open>upsertQuery\<close>: the five listed columns take the
  statement's values, the two timestamp columns their default \<^verbatim>\<open>CURRENT_TIMESTAMP\<close>.
\<close>

definition insert_row :: "nat \<Rightarrow> VaultEntry \<Rightarrow> row" where
  "insert_row now v =
     \<lparr>user_id = UserID v, entry_id = VaultEntry.EntryID v,
      encrypted_data = VaultEntry.EncryptedData v, version = VaultEntry.Version v,
      created_at = now, updated_at = now, deleted = VaultEntry.Deleted v\<rparr>"

text \<open>
  The \<^verbatim>\<open>ON DUPLICATE KEY UPDATE\<close> branch of \<^verbatim>\<open>upsertQuery\<close>, applied to the stored row
  \<open>r0\<close> that has the statement's key:
  \<^verbatim>\<open>
    encrypted_data = IF(VALUES(version) > version, VALUES(encrypted_data), encrypted_data),
    version        = IF(VALUES(version) > version, VALUES(version), version),
    deleted        = IF(VALUES(version) > version, VALUES(deleted), deleted),
    updated_at     = IF(VALUES(version) > version, CURRENT_TIMESTAMP, updated_at)
  \<close>
  The program runs on MySQL (driver \<^verbatim>\<open>go-sql-driver/mysql\<close>, README: MySQL 8.0+). MySQL
  carries out the assignments of an update list one after the other, from left to right,
  and a column name in an expression denotes the column's current value, that is the
  value already assigned by an assignment further left (MySQL Reference Manual, UPDATE
  Statement: in \<^verbatim>\<open>SET col1 = col1 + 1, col2 = col1\<close> the second assignment sets \<^verbatim>\<open>col2\<close>
  to the updated \<^verbatim>\<open>col1\<close>). \<^verbatim>\<open>VALUES(c)\<close> is the value the statement would have inserted.
  So each line below reads \<^verbatim>\<open>version\<close> from the row as the lines above it have left it.
  The column \<^verbatim>\<open>updated_at\<close> is declared \<^verbatim>\<open>ON UPDATE CURRENT_TIMESTAMP\<close>; that automatic update
  does not take place in a statement that assigns the column itself, as this one does.
\<close>

definition on_duplicate_key_update :: "nat \<Rightarrow> VaultEntry \<Rightarrow> row \<Rightarrow> row" where
  "on_duplicate_key_update now v r0 =
     (let r1 = r0\<lparr>encrypted_data :=
                   if VaultEntry.Version v > version r0 then VaultEntry.EncryptedData v
                   else encrypted_data r0\<rparr>;
          r2 = r1\<lparr>version :=
                   if VaultEntry.Version v > version r1 then VaultEntry.Version v
                   else version r1\<rparr>;
          r3 = r2\<lparr>deleted :=
                   if VaultEntry.Version v > version r2 then VaultEntry.Deleted v
                   else deleted r2\<rparr>;
          r4 = r3\<lparr>updated_at :=
                   if VaultEntry.Version v > version r3 then now
                   else updated_at r3\<rparr>
      in r4)"

text \<open>
  \<^verbatim>\<open>upsertQuery\<close> executed at \<^verbatim>\<open>CURRENT_TIMESTAMP = now\<close>: the row with the statement's key
  is updated where there is one, and a new row is inserted otherwise.
\<close>

definition upsertQuery :: "nat \<Rightarrow> table \<Rightarrow> VaultEntry \<Rightarrow> table" where
  "upsertQuery now tbl v =
     (if list_ex (key_is (UserID v) (VaultEntry.EntryID v)) tbl
      then map (\<lambda>r. if key_is (UserID v) (VaultEntry.EntryID v) r
                     then on_duplicate_key_update now v r else r) tbl
      else tbl @ [insert_row now v])"

text \<open>\<^verbatim>\<open>Upsert\<close> and \<^verbatim>\<open>UpsertTx\<close> send \<^verbatim>\<open>upsertQuery\<close> and return the driver's error.\<close>

definition Upsert :: "exec \<Rightarrow> table \<Rightarrow> VaultEntry \<Rightarrow> (error + unit) \<times> table" where
  "Upsert x tbl entry =
     (case x of
        Failed \<Rightarrow> (Inl ErrDriver, tbl)
      | Executed now \<Rightarrow> (Inr (), upsertQuery now tbl entry))"

definition UpsertTx :: "exec \<Rightarrow> table \<Rightarrow> VaultEntry \<Rightarrow> (error + unit) \<times> table" where
  "UpsertTx x tx entry =
     (case x of
        Failed \<Rightarrow> (Inl ErrDriver, tx)
      | Executed now \<Rightarrow> (Inr (), upsertQuery now tx entry))"

text \<open>
  \<^verbatim>\<open>rows.Scan\<close> copies a selected row into a \<open>VaultEntry\<close>.
\<close>

definition scan :: "row \<Rightarrow> VaultEntry" where
  "scan r =
     \<lparr>UserID = user_id r, VaultEntry.EntryID = entry_id r,
      VaultEntry.EncryptedData = encrypted_data r, VaultEntry.Version = version r,
      CreatedAt = int (created_at r), VaultEntry.UpdatedAt = int (updated_at r),
      VaultEntry.Deleted = deleted r\<rparr>"

text \<open>
  \<^verbatim>\<open>GetChangedSince\<close>:
  \<^verbatim>\<open>SELECT ... WHERE user_id = ? AND updated_at > ? ORDER BY updated_at ASC\<close>.
  The first argument says whether the query (or a scan of its rows) returns an error.
  SQL leaves the order of rows with equal \<^verbatim>\<open>updated_at\<close> open; here they keep their
  insertion order.
\<close>

definition GetChangedSince :: "bool \<Rightarrow> table \<Rightarrow> int \<Rightarrow> time \<Rightarrow> error + VaultEntry list" where
  "GetChangedSince fails tbl userID since =
     (if fails then Inl ErrDriver
      else Inr (map scan
             (sort_key updated_at
                (filter (\<lambda>r. user_id r = userID \<and> int (updated_at r) > since) tbl))))"

text \<open>
  \<^verbatim>\<open>GetByEntryID\<close>: the row with the key, or \<open>ErrEntryNotFound\<close> for
  \<^verbatim>\<open>sql.ErrNoRows\<close>. The first argument says whether the query returns another error.
\<close>

definition GetByEntryID :: "bool \<Rightarrow> table \<Rightarrow> int \<Rightarrow> string \<Rightarrow> error + VaultEntry" where
  "GetByEntryID fails tbl userID entryID =
     (if fails then Inl ErrDriver
      else (case find_row tbl userID entryID of
              None \<Rightarrow> Inl ErrEntryNotFound
            | Some r \<Rightarrow> Inr (scan r)))"

text \<open>
  \<^verbatim>\<open>SoftDelete\<close>:
  \<^verbatim>\<open>UPDATE vault_entries SET deleted = TRUE, version = version + 1 WHERE user_id = ? AND entry_id = ?\<close>.
  Every row with the key changes (its version does), so \<^verbatim>\<open>RowsAffected\<close> is the number
  of rows with the key, and \<^verbatim>\<open>updated_at\<close>, which the statement does not assign, takes
  \<^verbatim>\<open>CURRENT_TIMESTAMP\<close> by its \<^verbatim>\<open>ON UPDATE\<close> clause.
\<close>

definition softDeleteQuery :: "nat \<Rightarrow> table \<Rightarrow> int \<Rightarrow> string \<Rightarrow> table" where
  "softDeleteQuery now tbl uid eid =
     map (\<lambda>r. if key_is uid eid r
               then r\<lparr>deleted := True, version := version r + 1, updated_at := now\<rparr>
               else r) tbl"

definition SoftDelete :: "exec \<Rightarrow> table \<Rightarrow> int \<Rightarrow> string \<Rightarrow> (error + unit) \<times> table" where
  "SoftDelete x tbl userID entryID =
     (case x of
        Failed \<Rightarrow> (Inl ErrDriver, tbl)
      | Executed now \<Rightarrow>
          (let rowsAffected = int (length (filter (key_is userID entryID) tbl));
               tbl' = softDeleteQuery now tbl userID entryID
           in if rowsAffected = 0 then (Inl ErrEntryNotFound, tbl') else (Inr (), tbl')))"

section \<open>Base64 (Go standard library, encoding/base64)\<close>

text \<open>
  The service calls \<^verbatim>\<open>base64.StdEncoding.DecodeString\<close> and
  \<^verbatim>\<open>base64.StdEncoding.EncodeToString\<close>. They belong to the Go standard library, not to
  the program, so the service below takes the encoding as an argument and the theorems
  hold for any decoder and encoder. \<open>StdEncoding\<close> is the standard encoding itself, for
  running the service on concrete requests: the alphabet of RFC 4648, padding with
  \<^verbatim>\<open>=\<close> required, carriage returns and line feeds ignored, surplus bits of the last
  group not checked.
\<close>

record Encoding =
  DecodeString :: "string \<Rightarrow> bytes option"
  EncodeToString :: "bytes \<Rightarrow> string"

definition encodeStd :: string where
  "encodeStd = ''ABCDEFGHIJKLMNOPQRSTUVWXYZabcdefghijklmnopqrstuvwxyz0123456789+/''"

fun decodeMap :: "string \<Rightarrow> char \<Rightarrow> nat option" where
  "decodeMap [] c = None"
| "decodeMap (a # as) c = (if c = a then Some 0 else map_option Suc (decodeMap as c))"

definition quantum :: "nat \<Rightarrow> nat \<Rightarrow> nat \<Rightarrow> nat \<Rightarrow> nat \<Rightarrow> bytes" where
  "quantum dlen x0 x1 x2 x3 =
     (let val = x0 * 262144 + x1 * 4096 + x2 * 64 + x3
      in take (dlen - 1) [of_nat (val div 65536), of_nat (val div 256), of_nat val])"

fun decode_quanta :: "string \<Rightarrow> bytes option" where
  "decode_quanta (a # b # c # d # rest) =
     (case (decodeMap encodeStd a, decodeMap encodeStd b) of
        (Some x0, Some x1) \<Rightarrow>
          (if c = CHR ''='' then
             (if d = CHR ''='' \<and> rest = [] then Some (quantum 2 x0 x1 0 0) else None)
           else
             (case decodeMap encodeStd c of
                None \<Rightarrow> None
              | Some x2 \<Rightarrow>
                  (if d = CHR ''='' then
                     (if rest = [] then Some (quantum 3 x0 x1 x2 0) else None)
                   else
                     (case decodeMap encodeStd d of
                        None \<Rightarrow> None
                      | Some x3 \<Rightarrow>
                          map_option (\<lambda>bs. quantum 4 x0 x1 x2 x3 @ bs) (decode_quanta rest)))))
      | _ \<Rightarrow> None)"
| "decode_quanta [] = Some []"
| "decode_quanta _ = None"

fun encode_groups :: "bytes \<Rightarrow> string" where
  "encode_groups (b0 # b1 # b2 # rest) =
     (let val = unat b0 * 65536 + unat b1 * 256 + unat b2
      in [encodeStd ! (val div 262144 mod 64), encodeStd ! (val div 4096 mod 64),
          encodeStd ! (val div 64 mod 64), encodeStd ! (val mod 64)] @ encode_groups rest)"
| "encode_groups [b0, b1] =
     (let val = unat b0 * 65536 + unat b1 * 256
      in [encodeStd ! (val div 262144 mod 64), encodeStd ! (val div 4096 mod 64),
          encodeStd ! (val div 64 mod 64), CHR ''=''])"
| "encode_groups [b0] =
     (let val = unat b0 * 65536
      in [encodeStd ! (val div 262144 mod 64), encodeStd ! (val div 4096 mod 64),
          CHR ''='', CHR ''=''])"
| "encode_groups [] = []"

definition StdEncoding :: Encoding where
  "StdEncoding =
     \<lparr>DecodeString = (\<lambda>s. decode_quanta (filter (\<lambda>c. c \<noteq> CHR 0x0A \<and> c \<noteq> CHR 0x0D) s)),
      EncodeToString = encode_groups\<rparr>"

section \<open>The service (internal/service/vault.go)\<close>

definition entriesToResponse :: "Encoding \<Rightarrow> VaultEntry list \<Rightarrow> VaultEntryResponse list" where
  "entriesToResponse enc entries =
     map (\<lambda>e. \<lparr>VaultEntryResponse.EntryID = VaultEntry.EntryID e,
                VaultEntryResponse.EncryptedData = EncodeToString enc (VaultEntry.EncryptedData e),
                VaultEntryResponse.Version = VaultEntry.Version e,
                VaultEntryResponse.UpdatedAt = VaultEntry.UpdatedAt e,
                VaultEntryResponse.Deleted = VaultEntry.Deleted e\<rparr>) entries"

text \<open>
  \<^verbatim>\<open>CreateEntry\<close>. \<open>x\<close> is what the upsert statement does, \<open>now\<close> the reading of
  \<^verbatim>\<open>time.Now().UTC()\<close> after it. The fields of \<^verbatim>\<open>entry\<close> that the Go literal leaves
  out have their zero values.
\<close>

definition CreateEntry ::
  "Encoding \<Rightarrow> exec \<Rightarrow> time \<Rightarrow> table \<Rightarrow> int \<Rightarrow> VaultEntryRequest
     \<Rightarrow> (error + VaultEntryResponse) \<times> table" where
  "CreateEntry enc x now tbl userID req =
     (if VaultEntryRequest.EntryID req = [] then (Inl ErrEntryIDRequired, tbl)
      else if VaultEntryRequest.EncryptedData req = [] then (Inl ErrEncryptedDataRequired, tbl)
      else
        (case DecodeString enc (VaultEntryRequest.EncryptedData req) of
           None \<Rightarrow> (Inl CorruptInputError, tbl)
         | Some data \<Rightarrow>
             (let entry = \<lparr>UserID = userID, VaultEntry.EntryID = VaultEntryRequest.EntryID req,
                           VaultEntry.EncryptedData = data, VaultEntry.Version = 1,
                           CreatedAt = zero_time, VaultEntry.UpdatedAt = zero_time,
                           VaultEntry.Deleted = False\<rparr>
              in case Upsert x tbl entry of
                   (Inl err, tbl') \<Rightarrow> (Inl err, tbl')
                 | (Inr _, tbl') \<Rightarrow>
                     (let entry = entry\<lparr>VaultEntry.UpdatedAt := now\<rparr>
                      in (Inr \<lparr>VaultEntryResponse.EntryID = VaultEntry.EntryID entry,
                               VaultEntryResponse.EncryptedData =
                                 EncodeToString enc (VaultEntry.EncryptedData entry),
                               VaultEntryResponse.Version = VaultEntry.Version entry,
                               VaultEntryResponse.UpdatedAt = VaultEntry.UpdatedAt entry,
                               VaultEntryResponse.Deleted = False\<rparr>, tbl')))))"

text \<open>
  \<^verbatim>\<open>UpdateEntry\<close>. \<open>q\<close> says whether the lookup of the stored entry returns an error
  of the driver, \<open>x\<close> is what the upsert statement does. The stored version comes from an
  \<^verbatim>\<open>INT\<close> column, so adding one to it does not leave the range of a Go \<^verbatim>\<open>int\<close>.
\<close>

definition UpdateEntry ::
  "Encoding \<Rightarrow> bool \<Rightarrow> exec \<Rightarrow> time \<Rightarrow> table \<Rightarrow> int \<Rightarrow> string \<Rightarrow> VaultEntryRequest
     \<Rightarrow> (error + VaultEntryResponse) \<times> table" where
  "UpdateEntry enc q x now tbl userID entryID req =
     (if VaultEntryRequest.EncryptedData req = [] then (Inl ErrEncryptedDataRequired, tbl)
      else
        (case DecodeString enc (VaultEntryRequest.EncryptedData req) of
           None \<Rightarrow> (Inl CorruptInputError, tbl)
         | Some data \<Rightarrow>
             (case GetByEntryID q tbl userID entryID of
                Inl err \<Rightarrow> (Inl err, tbl)
              | Inr existing \<Rightarrow>
                  (let entry = \<lparr>UserID = userID, VaultEntry.EntryID = entryID,
                                VaultEntry.EncryptedData = data,
                                VaultEntry.Version = VaultEntry.Version existing + 1,
                                CreatedAt = zero_time, VaultEntry.UpdatedAt = zero_time,
                                VaultEntry.Deleted = False\<rparr>
                   in case Upsert x tbl entry of
                        (Inl err, tbl') \<Rightarrow> (Inl err, tbl')
                      | (Inr _, tbl') \<Rightarrow>
                          (let entry = entry\<lparr>VaultEntry.UpdatedAt := now\<rparr>
                           in (Inr \<lparr>VaultEntryResponse.EntryID = VaultEntry.EntryID entry,
                                    VaultEntryResponse.EncryptedData =
                                      EncodeToString enc (VaultEntry.EncryptedData entry),
                                    VaultEntryResponse.Version = VaultEntry.Version entry,
                                    VaultEntryResponse.UpdatedAt = VaultEntry.UpdatedAt entry,
                                    VaultEntryResponse.Deleted = False\<rparr>, tbl'))))))"

text \<open>
  \<^verbatim>\<open>DeleteEntry\<close> hands the repository's result on (the repository's and the service's
  \<^verbatim>\<open>ErrEntryNotFound\<close> are one constructor here).
\<close>

definition DeleteEntry :: "exec \<Rightarrow> table \<Rightarrow> int \<Rightarrow> string \<Rightarrow> (error + unit) \<times> table" where
  "DeleteEntry x tbl userID entryID = SoftDelete x tbl userID entryID"

text \<open>
  What the surroundings of one \<^verbatim>\<open>Sync\<close> call decide: the reading of the Go clock at
  its start, whether \<^verbatim>\<open>BeginTx\<close>, \<^verbatim>\<open>Commit\<close> and the change query return an error, and
  what the \<open>k\<close>-th upsert statement sent inside the transaction does (counted from 0).
\<close>

record sync_env =
  time_Now :: time
  BeginTx_fails :: bool
  UpsertTx_exec :: "nat \<Rightarrow> exec"
  Commit_fails :: bool
  GetChangedSince_fails :: bool

text \<open>
  The loop of \<^verbatim>\<open>Sync\<close> over \<^verbatim>\<open>req.Entries\<close>. \<open>k\<close> counts the upsert statements sent so
  far, \<open>tx\<close> is the table as the open transaction sees it, \<open>skipped\<close> the counter.
\<close>

fun sync_entries ::
  "Encoding \<Rightarrow> (nat \<Rightarrow> exec) \<Rightarrow> int \<Rightarrow> VaultEntryRequest list \<Rightarrow> nat \<Rightarrow> table \<Rightarrow> int
     \<Rightarrow> table \<times> int" where
  "sync_entries enc ex userID [] k tx skipped = (tx, skipped)"
| "sync_entries enc ex userID (re # res) k tx skipped =
     (case DecodeString enc (VaultEntryRequest.EncryptedData re) of
        None \<Rightarrow> sync_entries enc ex userID res k tx (skipped + 1)
      | Some data \<Rightarrow>
          (let version = (if VaultEntryRequest.Version re < 1 then 1
                          else VaultEntryRequest.Version re);
               entry = \<lparr>UserID = userID, VaultEntry.EntryID = VaultEntryRequest.EntryID re,
                        VaultEntry.EncryptedData = data, VaultEntry.Version = version,
                        CreatedAt = zero_time, VaultEntry.UpdatedAt = zero_time,
                        VaultEntry.Deleted = VaultEntryRequest.Deleted re\<rparr>
           in case UpsertTx (ex k) tx entry of
                (Inl err, tx') \<Rightarrow> sync_entries enc ex userID res (k + 1) tx' (skipped + 1)
              | (Inr _, tx') \<Rightarrow> sync_entries enc ex userID res (k + 1) tx' skipped))"

text \<open>
  The second half of \<^verbatim>\<open>Sync\<close> ("Get server-side changes to send back to the client"),
  on the table \<open>tbl\<close> as it is once the incoming entries are dealt with.
\<close>

definition sync_changes ::
  "Encoding \<Rightarrow> sync_env \<Rightarrow> table \<Rightarrow> int \<Rightarrow> SyncRequest \<Rightarrow> time \<Rightarrow> int
     \<Rightarrow> (error + SyncResponse) \<times> table" where
  "sync_changes enc env tbl userID req syncedAt skipped =
     (case (case LastSyncedAt req of
              None \<Rightarrow> GetChangedSince (GetChangedSince_fails env) tbl userID zero_time
            | Some t \<Rightarrow> GetChangedSince (GetChangedSince_fails env) tbl userID t) of
        Inl err \<Rightarrow> (Inl err, tbl)
      | Inr serverEntries \<Rightarrow>
          (Inr \<lparr>SyncedAt = syncedAt,
                SyncResponse.Entries = entriesToResponse enc serverEntries,
                Skipped = skipped\<rparr>, tbl))"

text \<open>
  \<^verbatim>\<open>Sync\<close>. A transaction that is not committed is rolled back (\<^verbatim>\<open>defer tx.Rollback()\<close>):
  the table is then the one the round started with.
\<close>

definition Sync ::
  "Encoding \<Rightarrow> sync_env \<Rightarrow> table \<Rightarrow> int \<Rightarrow> SyncRequest \<Rightarrow> (error + SyncResponse) \<times> table" where
  "Sync enc env tbl userID req =
     (let syncedAt = time_Now env
      in if length (SyncRequest.Entries req) > 0 then
           (if BeginTx_fails env then (Inl ErrDriver, tbl)
            else
              (case sync_entries enc (UpsertTx_exec env) userID (SyncRequest.Entries req) 0 tbl 0 of
                 (tx, skipped) \<Rightarrow>
                   (if Commit_fails env then (Inl ErrDriver, tbl)
                    else sync_changes enc env tx userID req syncedAt skipped)))
         else sync_changes enc env tbl userID req syncedAt 0)"

text \<open>
  The records of a batch whose payload decodes, in the order of the batch, each as the
  entry that is handed to the store: the owner of the round, the decoded payload, and the
  version raised to 1 if the client sent less.
\<close>

definition decoded_entries :: "Encoding \<Rightarrow> int \<Rightarrow> VaultEntryRequest list \<Rightarrow> VaultEntry list" where
  "decoded_entries enc uid res =
     List.map_filter
       (\<lambda>re. map_option
          (\<lambda>data. \<lparr>UserID = uid, VaultEntry.EntryID = VaultEntryRequest.EntryID re,
                    VaultEntry.EncryptedData = data,
                    VaultEntry.Version = (if VaultEntryRequest.Version re < 1 then 1
                                          else VaultEntryRequest.Version re),
                    CreatedAt = zero_time, VaultEntry.UpdatedAt = zero_time,
                    VaultEntry.Deleted = VaultEntryRequest.Deleted re\<rparr>)
          (DecodeString enc (VaultEntryRequest.EncryptedData re))) res"

section \<open>Histories of the store\<close>

text \<open>
  The table is written by \<^verbatim>\<open>upsertQuery\<close> and by the statement of \<^verbatim>\<open>SoftDelete\<close> and by
  nothing else. A history is a sequence of such statements, each with what the database
  made of it.
\<close>

datatype op = OpUpsert exec VaultEntry | OpSoftDelete exec int string

fun op_exec :: "op \<Rightarrow> exec" where
  "op_exec (OpUpsert x e) = x"
| "op_exec (OpSoftDelete x uid eid) = x"

fun step :: "op \<Rightarrow> table \<Rightarrow> table" where
  "step (OpUpsert x e) tbl = snd (Upsert x tbl e)"
| "step (OpSoftDelete x uid eid) tbl = snd (SoftDelete x tbl uid eid)"

definition run :: "op list \<Rightarrow> table \<Rightarrow> table" where
  "run ops tbl = fold step ops tbl"

text \<open>The database clock does not read less than \<open>t\<close> when the statement is executed.\<close>

fun not_before :: "nat \<Rightarrow> op \<Rightarrow> bool" where
  "not_before t opn = (case op_exec opn of Failed \<Rightarrow> True | Executed t' \<Rightarrow> t \<le> t')"

text \<open>
  The upsert statements of one transaction for the entries \<open>vs\<close>: the first of them is
  the \<open>k\<close>-th statement of the transaction, and \<open>ex\<close> says what becomes of each.
\<close>

definition upsert_ops :: "(nat \<Rightarrow> exec) \<Rightarrow> nat \<Rightarrow> VaultEntry list \<Rightarrow> op list" where
  "upsert_ops ex k vs = map (\<lambda>(j, v). OpUpsert (ex j) v) (enumerate k vs)"

text \<open>
  The key \<open>(uid, eid)\<close> has a row, and the version of the row is at least \<open>n\<close>.
\<close>

definition has_version :: "int \<Rightarrow> int \<Rightarrow> string \<Rightarrow> table \<Rightarrow> bool" where
  "has_version n uid eid tbl \<longleftrightarrow>
     (case find_row tbl uid eid of None \<Rightarrow> False | Some r \<Rightarrow> n \<le> version r)"

text \<open>
  The unique index: no two rows of the table have the same \<open>(user_id, entry_id)\<close>.
\<close>

definition unique_index :: "table \<Rightarrow> bool" where
  "unique_index tbl \<longleftrightarrow> distinct (map (\<lambda>r. (user_id r, entry_id r)) tbl)"

text \<open>
  The key \<open>(uid, eid)\<close> has a row, the row is marked deleted and its \<^verbatim>\<open>updated_at\<close> is
  not before \<open>td\<close>.
\<close>

definition tombstone :: "nat \<Rightarrow> int \<Rightarrow> string \<Rightarrow> table \<Rightarrow> bool" where
  "tombstone td uid eid tbl \<longleftrightarrow>
     (case find_row tbl uid eid of None \<Rightarrow> False | Some r \<Rightarrow> deleted r \<and> td \<le> updated_at r)"

section \<open>Concrete inputs\<close>

text \<open>
  Shorthands for the concrete runs below: a \<open>VaultEntry\<close> as the service builds it (the
  two time fields at their zero value), a request entry, and surroundings of a \<^verbatim>\<open>Sync\<close>
  call in which nothing fails and the \<open>k\<close>-th upsert statement is executed at database
  time \<open>t + k\<close>.
\<close>

definition entry :: "int \<Rightarrow> string \<Rightarrow> bytes \<Rightarrow> int \<Rightarrow> bool \<Rightarrow> VaultEntry" where
  "entry uid eid data ver del =
     \<lparr>UserID = uid, VaultEntry.EntryID = eid, VaultEntry.EncryptedData = data,
      VaultEntry.Version = ver, CreatedAt = zero_time, VaultEntry.UpdatedAt = zero_time,
      VaultEntry.Deleted = del\<rparr>"

definition request :: "string \<Rightarrow> string \<Rightarrow> int \<Rightarrow> bool \<Rightarrow> VaultEntryRequest" where
  "request eid payload ver del =
     \<lparr>VaultEntryRequest.EntryID = eid, VaultEntryRequest.EncryptedData = payload,
      VaultEntryRequest.Version = ver, VaultEntryRequest.Deleted = del\<rparr>"

definition all_ok :: "time \<Rightarrow> nat \<Rightarrow> sync_env" where
  "all_ok now t =
     \<lparr>time_Now = now, BeginTx_fails = False, UpsertTx_exec = (\<lambda>k. Executed (t + k)),
      Commit_fails = False, GetChangedSince_fails = False\<rparr>"

lemmas eval_defs =
  Sync_def sync_changes_def GetChangedSince_def entriesToResponse_def scan_def
  UpsertTx_def upsertQuery_def insert_row_def key_is_def zero_time_def
  request_def all_ok_def StdEncoding_def encodeStd_def quantum_def

section \<open>Lemmas on the table\<close>

lemma on_duplicate_key_update_eq:
  "on_duplicate_key_update now v r =
     (if VaultEntry.Version v > version r
      then r\<lparr>encrypted_data := VaultEntry.EncryptedData v, version := VaultEntry.Version v\<rparr>
      else r)"
  by (simp add: on_duplicate_key_update_def Let_def)

lemma key_is_on_duplicate_key_update [simp]:
  "key_is uid eid (on_duplicate_key_update now v r) = key_is uid eid r"
  by (simp add: key_is_def on_duplicate_key_update_def Let_def)

lemma on_duplicate_key_update_twice:
  "on_duplicate_key_update t2 v (on_duplicate_key_update t1 v r) = on_duplicate_key_update t1 v r"
  by (simp add: on_duplicate_key_update_def Let_def)

lemma on_duplicate_key_update_insert_row:
  "on_duplicate_key_update t2 v (insert_row t1 v) = insert_row t1 v"
  by (simp add: on_duplicate_key_update_def insert_row_def Let_def)

lemma key_is_insert_row [simp]:
  "key_is (UserID v) (VaultEntry.EntryID v) (insert_row now v)"
  by (simp add: key_is_def insert_row_def)

lemma list_ex_key_is_map [simp]:
  "list_ex (key_is uid eid)
     (map (\<lambda>r. if key_is uid' eid' r then on_duplicate_key_update now v r else r) tbl)
   = list_ex (key_is uid eid) tbl"
  by (induction tbl) auto

lemma map_no_key:
  "\<not> list_ex (key_is uid eid) tbl \<Longrightarrow> map (\<lambda>r. if key_is uid eid r then f r else r) tbl = tbl"
  by (induction tbl) auto

lemma upsertQuery_twice:
  "upsertQuery t2 (upsertQuery t1 tbl v) v = upsertQuery t1 tbl v"
proof (cases "list_ex (key_is (UserID v) (VaultEntry.EntryID v)) tbl")
  case True
  then show ?thesis
    by (simp add: upsertQuery_def on_duplicate_key_update_twice)
next
  case False
  then show ?thesis
    by (simp add: upsertQuery_def map_no_key on_duplicate_key_update_insert_row)
qed

lemma find_None_list_ex: "find P xs = None \<longleftrightarrow> \<not> list_ex P xs"
  by (induction xs) auto

lemma find_Some_set: "find P xs = Some r \<Longrightarrow> r \<in> set xs \<and> P r"
  by (induction xs) (auto split: if_splits)

lemma filter_empty_find: "filter P xs = [] \<longleftrightarrow> find P xs = None"
  by (induction xs) auto

lemma find_append_new:
  "find P xs = None \<Longrightarrow> find P (xs @ [x]) = (if P x then Some x else None)"
  by (induction xs) (auto split: if_splits)

lemma find_map_key:
  "find (key_is uid eid)
     (map (\<lambda>r. if key_is uid eid r then on_duplicate_key_update now v r else r) tbl)
   = map_option (on_duplicate_key_update now v) (find (key_is uid eid) tbl)"
  by (induction tbl) auto

lemma find_map_other_key:
  "(uid', eid') \<noteq> (uid, eid) \<Longrightarrow>
   find (key_is uid' eid')
     (map (\<lambda>r. if key_is uid eid r then on_duplicate_key_update now v r else r) tbl)
   = find (key_is uid' eid') tbl"
proof (induction tbl)
  case Nil
  show ?case by simp
next
  case (Cons r tbl)
  have "key_is uid eid r \<Longrightarrow> \<not> key_is uid' eid' r"
    using Cons.prems by (auto simp: key_is_def)
  with Cons show ?case by simp
qed

text \<open>
  What \<^verbatim>\<open>upsertQuery\<close> leaves under its own key: the inserted row if the key was free,
  the updated row otherwise. With \<open>on_duplicate_key_update_eq\<close>: a stored row takes the
  payload and the version of a write with a greater version and keeps its other columns;
  a write whose version is not greater changes nothing.
\<close>

lemma find_row_upsertQuery:
  "find_row (upsertQuery now tbl v) (UserID v) (VaultEntry.EntryID v) =
     (case find_row tbl (UserID v) (VaultEntry.EntryID v) of
        None \<Rightarrow> Some (insert_row now v)
      | Some r \<Rightarrow> Some (on_duplicate_key_update now v r))"
proof (cases "find_row tbl (UserID v) (VaultEntry.EntryID v)")
  case None
  then have "\<not> list_ex (key_is (UserID v) (VaultEntry.EntryID v)) tbl"
    by (simp add: find_row_def find_None_list_ex)
  with None show ?thesis
    by (simp add: find_row_def upsertQuery_def find_append_new)
next
  case (Some r)
  then have "list_ex (key_is (UserID v) (VaultEntry.EntryID v)) tbl"
    using find_None_list_ex [of "key_is (UserID v) (VaultEntry.EntryID v)" tbl]
    by (simp add: find_row_def)
  with Some show ?thesis
    by (simp add: find_row_def upsertQuery_def find_map_key)
qed

text \<open>
  Hence an executed upsert never changes the deleted flag or \<^verbatim>\<open>updated_at\<close> of a row that
  is already stored.
\<close>

lemma upsertQuery_keeps_deleted_updated_at:
  assumes "find_row tbl (UserID v) (VaultEntry.EntryID v) = Some r"
  shows "\<exists>r'. find_row (upsertQuery now tbl v) (UserID v) (VaultEntry.EntryID v) = Some r'
            \<and> deleted r' = deleted r \<and> updated_at r' = updated_at r"
  using assms by (simp add: find_row_upsertQuery on_duplicate_key_update_eq)

lemma find_row_upsertQuery_other:
  assumes "(uid, eid) \<noteq> (UserID v, VaultEntry.EntryID v)"
  shows "find_row (upsertQuery now tbl v) uid eid = find_row tbl uid eid"
proof (cases "list_ex (key_is (UserID v) (VaultEntry.EntryID v)) tbl")
  case True
  with assms show ?thesis
    by (simp add: upsertQuery_def find_row_def find_map_other_key)
next
  case False
  have "\<not> key_is uid eid (insert_row now v)"
    using assms by (auto simp: key_is_def insert_row_def)
  then have "find (key_is uid eid) (tbl @ [insert_row now v]) = find (key_is uid eid) tbl"
    by (induction tbl) auto
  with False show ?thesis
    by (simp add: upsertQuery_def find_row_def)
qed

lemma find_softDelete:
  "find (key_is uid eid) (softDeleteQuery now tbl uid eid)
     = map_option (\<lambda>r. r\<lparr>deleted := True, version := version r + 1, updated_at := now\<rparr>)
         (find (key_is uid eid) tbl)"
  by (induction tbl) (auto simp: softDeleteQuery_def key_is_def)

lemma find_softDelete_other:
  "(uid', eid') \<noteq> (uid, eid) \<Longrightarrow>
   find (key_is uid' eid') (softDeleteQuery now tbl uid eid) = find (key_is uid' eid') tbl"
proof (induction tbl)
  case Nil
  show ?case by (simp add: softDeleteQuery_def)
next
  case (Cons r tbl)
  have "key_is uid eid r \<Longrightarrow> \<not> key_is uid' eid' r"
    using Cons.prems by (auto simp: key_is_def)
  moreover have
    "key_is uid' eid' (r\<lparr>deleted := True, version := version r + 1, updated_at := now\<rparr>)
       = key_is uid' eid' r"
    by (simp add: key_is_def)
  ultimately show ?case using Cons by (simp add: softDeleteQuery_def)
qed

lemma softDelete_absent:
  "find (key_is uid eid) tbl = None \<Longrightarrow> softDeleteQuery now tbl uid eid = tbl"
  by (induction tbl) (auto simp: softDeleteQuery_def split: if_splits)

subsection \<open>The unique index is kept\<close>

lemma unique_index_empty: "unique_index []"
  by (simp add: unique_index_def)

lemma keys_map_update:
  "map (\<lambda>r. (user_id r, entry_id r))
     (map (\<lambda>r. if key_is uid eid r then on_duplicate_key_update now v r else r) tbl)
   = map (\<lambda>r. (user_id r, entry_id r)) tbl"
  by (induction tbl) (simp_all add: on_duplicate_key_update_eq)

lemma unique_index_upsertQuery:
  assumes "unique_index tbl"
  shows "unique_index (upsertQuery now tbl v)"
proof (cases "list_ex (key_is (UserID v) (VaultEntry.EntryID v)) tbl")
  case True
  then have "upsertQuery now tbl v
      = map (\<lambda>r. if key_is (UserID v) (VaultEntry.EntryID v) r
                  then on_duplicate_key_update now v r else r) tbl"
    by (simp add: upsertQuery_def)
  with assms show ?thesis
    unfolding unique_index_def by (simp only: keys_map_update)
next
  case False
  then have "(UserID v, VaultEntry.EntryID v) \<notin> (\<lambda>r. (user_id r, entry_id r)) ` set tbl"
    by (auto simp: list_ex_iff key_is_def)
  with False assms show ?thesis
    by (simp add: upsertQuery_def unique_index_def insert_row_def)
qed

lemma unique_index_softDeleteQuery:
  assumes "unique_index tbl"
  shows "unique_index (softDeleteQuery now tbl uid eid)"
proof -
  have "map (\<lambda>r. (user_id r, entry_id r)) (softDeleteQuery now tbl uid eid)
      = map (\<lambda>r. (user_id r, entry_id r)) tbl"
    by (induction tbl) (simp_all add: softDeleteQuery_def)
  with assms show ?thesis
    by (simp add: unique_index_def)
qed

lemma unique_index_step: "unique_index tbl \<Longrightarrow> unique_index (step opn tbl)"
  by (cases opn)
     (auto simp: Upsert_def SoftDelete_def Let_def unique_index_upsertQuery
        unique_index_softDeleteQuery split: exec.splits)

lemma unique_index_run: "unique_index tbl \<Longrightarrow> unique_index (run ops tbl)"
  unfolding run_def by (induction ops arbitrary: tbl) (simp_all add: unique_index_step)

lemma unique_index_same_key:
  "unique_index tbl \<Longrightarrow> find (key_is uid eid) tbl = Some r \<Longrightarrow> r' \<in> set tbl
     \<Longrightarrow> key_is uid eid r' \<Longrightarrow> r' = r"
proof (induction tbl)
  case Nil
  then show ?case by simp
next
  case (Cons a tbl)
  then show ?case
    by (cases "key_is uid eid a") (force simp: unique_index_def key_is_def)+
qed

lemma upsertQuery_stale:
  assumes "unique_index tbl"
    and "find_row tbl (UserID v) (VaultEntry.EntryID v) = Some r"
    and "VaultEntry.Version v \<le> version r"
  shows "upsertQuery now tbl v = tbl"
proof -
  have ex: "list_ex (key_is (UserID v) (VaultEntry.EntryID v)) tbl"
    using assms(2) find_None_list_ex [of "key_is (UserID v) (VaultEntry.EntryID v)" tbl]
    by (simp add: find_row_def)
  have "map (\<lambda>r. if key_is (UserID v) (VaultEntry.EntryID v) r
                  then on_duplicate_key_update now v r else r) tbl = tbl"
  proof (rule map_idI)
    fix r' assume "r' \<in> set tbl"
    show "(if key_is (UserID v) (VaultEntry.EntryID v) r'
           then on_duplicate_key_update now v r' else r') = r'"
    proof (cases "key_is (UserID v) (VaultEntry.EntryID v) r'")
      case True
      with assms \<open>r' \<in> set tbl\<close> have "r' = r"
        by (auto simp: find_row_def dest: unique_index_same_key)
      with assms(3) True show ?thesis
        by (simp add: on_duplicate_key_update_eq)
    next
      case False
      then show ?thesis by simp
    qed
  qed
  with ex show ?thesis by (simp add: upsertQuery_def)
qed

subsection \<open>The service writes the table through histories\<close>

lemma run_Cons: "run (opn # ops) tbl = run ops (step opn tbl)"
  by (simp add: run_def)

lemma sync_entries_run:
  "\<exists>ops. fst (sync_entries enc ex uid res k tx s) = run ops tx
         \<and> (\<forall>opn\<in>set ops. \<exists>j. op_exec opn = ex j)"
proof (induction res arbitrary: k tx s)
  case Nil
  have "fst (sync_entries enc ex uid [] k tx s) = run [] tx" by (simp add: run_def)
  then show ?case by fastforce
next
  case (Cons re res)
  show ?case
  proof (cases "DecodeString enc (VaultEntryRequest.EncryptedData re)")
    case None
    with Cons.IH [of k tx "s + 1"] show ?thesis by simp
  next
    case (Some data)
    let ?entry = "\<lparr>UserID = uid, VaultEntry.EntryID = VaultEntryRequest.EntryID re,
                    VaultEntry.EncryptedData = data,
                    VaultEntry.Version = (if VaultEntryRequest.Version re < 1 then 1
                                          else VaultEntryRequest.Version re),
                    CreatedAt = zero_time, VaultEntry.UpdatedAt = zero_time,
                    VaultEntry.Deleted = VaultEntryRequest.Deleted re\<rparr>"
    let ?tx = "step (OpUpsert (ex k) ?entry) tx"
    obtain s' where eq: "sync_entries enc ex uid (re # res) k tx s
        = sync_entries enc ex uid res (k + 1) ?tx s'"
      using Some by (cases "ex k") (simp_all add: Let_def UpsertTx_def Upsert_def)
    from Cons.IH [of "k + 1" ?tx s'] obtain ops where
      ops: "fst (sync_entries enc ex uid res (k + 1) ?tx s') = run ops ?tx"
           "\<forall>opn\<in>set ops. \<exists>j. op_exec opn = ex j"
      by blast
    have "fst (sync_entries enc ex uid (re # res) k tx s)
            = run (OpUpsert (ex k) ?entry # ops) tx"
      using ops(1) by (simp only: eq run_Cons)
    moreover have "\<forall>opn\<in>set (OpUpsert (ex k) ?entry # ops). \<exists>j. op_exec opn = ex j"
      using ops(2) by auto
    ultimately show ?thesis by blast
  qed
qed

lemma snd_sync_changes: "snd (sync_changes enc env t uid req syncedAt s) = t"
  by (simp add: sync_changes_def split: option.splits sum.splits)

text \<open>
  Whatever a call of the service does to the table is a history, made of the statements
  the call has sent: \<^verbatim>\<open>Sync\<close>, \<^verbatim>\<open>CreateEntry\<close>, \<^verbatim>\<open>UpdateEntry\<close> and \<^verbatim>\<open>DeleteEntry\<close> are
  the calls that write (\<^verbatim>\<open>ListEntries\<close> only reads).
\<close>

lemma Sync_run:
  "\<exists>ops. snd (Sync enc env tbl uid req) = run ops tbl
         \<and> (\<forall>opn\<in>set ops. \<exists>j. op_exec opn = UpsertTx_exec env j)"
proof (cases "SyncRequest.Entries req = [] \<or> BeginTx_fails env \<or> Commit_fails env")
  case True
  then have "snd (Sync enc env tbl uid req) = run [] tbl"
    by (auto simp: Sync_def Let_def snd_sync_changes run_def split: prod.splits)
  then show ?thesis by fastforce
next
  case False
  then have "snd (Sync enc env tbl uid req)
      = fst (sync_entries enc (UpsertTx_exec env) uid (SyncRequest.Entries req) 0 tbl 0)"
    by (auto simp: Sync_def Let_def snd_sync_changes split: prod.splits)
  with sync_entries_run [of enc "UpsertTx_exec env" uid "SyncRequest.Entries req" 0 tbl 0]
  show ?thesis by simp
qed

lemma CreateEntry_run:
  "\<exists>ops. snd (CreateEntry enc x now tbl uid req) = run ops tbl
         \<and> (\<forall>opn\<in>set ops. op_exec opn = x)"
proof (cases "VaultEntryRequest.EntryID req \<noteq> [] \<and> VaultEntryRequest.EncryptedData req \<noteq> []
        \<and> DecodeString enc (VaultEntryRequest.EncryptedData req) \<noteq> None")
  case True
  then obtain data where "DecodeString enc (VaultEntryRequest.EncryptedData req) = Some data"
    by auto
  with True have "snd (CreateEntry enc x now tbl uid req)
      = run [OpUpsert x \<lparr>UserID = uid, VaultEntry.EntryID = VaultEntryRequest.EntryID req,
                           VaultEntry.EncryptedData = data, VaultEntry.Version = 1,
                           CreatedAt = zero_time, VaultEntry.UpdatedAt = zero_time,
                           VaultEntry.Deleted = False\<rparr>] tbl"
    by (cases x) (simp_all add: CreateEntry_def Upsert_def run_def Let_def)
  then show ?thesis by fastforce
next
  case False
  then have "snd (CreateEntry enc x now tbl uid req) = run [] tbl"
    by (auto simp: CreateEntry_def run_def split: option.splits)
  then show ?thesis by fastforce
qed

lemma UpdateEntry_run:
  "\<exists>ops. snd (UpdateEntry enc q x now tbl uid eid req) = run ops tbl
         \<and> (\<forall>opn\<in>set ops. op_exec opn = x)"
proof (cases "\<exists>tbl'. snd (UpdateEntry enc q x now tbl uid eid req) = tbl' \<and> tbl' \<noteq> tbl")
  case False
  then have "snd (UpdateEntry enc q x now tbl uid eid req) = run [] tbl"
    by (simp add: run_def)
  then show ?thesis by fastforce
next
  case True
  then obtain data existing where
    "DecodeString enc (VaultEntryRequest.EncryptedData req) = Some data"
    "GetByEntryID q tbl uid eid = Inr existing"
    "VaultEntryRequest.EncryptedData req \<noteq> []"
    by (auto simp: UpdateEntry_def split: if_splits option.splits sum.splits)
  then have "snd (UpdateEntry enc q x now tbl uid eid req)
      = run [OpUpsert x \<lparr>UserID = uid, VaultEntry.EntryID = eid,
                           VaultEntry.EncryptedData = data,
                           VaultEntry.Version = VaultEntry.Version existing + 1,
                           CreatedAt = zero_time, VaultEntry.UpdatedAt = zero_time,
                           VaultEntry.Deleted = False\<rparr>] tbl"
    by (cases x) (simp_all add: UpdateEntry_def Upsert_def run_def Let_def)
  then show ?thesis by fastforce
qed

lemma DeleteEntry_run:
  "snd (DeleteEntry x tbl uid eid) = run [OpSoftDelete x uid eid] tbl"
  by (simp add: DeleteEntry_def run_def)

subsection \<open>The loop of Sync\<close>

lemma sync_entries_skipped:
  "sync_entries enc ex uid res k tx (s + n) =
     (case sync_entries enc ex uid res k tx s of (t, m) \<Rightarrow> (t, m + n))"
proof (induction res arbitrary: k tx s)
  case Nil
  show ?case by simp
next
  case (Cons re res)
  have comm: "\<And>a. a + n + 1 = a + 1 + n" by simp
  show ?case
    by (simp add: Let_def UpsertTx_def Cons.IH comm split: option.splits exec.splits)
qed

lemma sync_entries_undecodable:
  assumes "DecodeString enc (VaultEntryRequest.EncryptedData bad) = None"
  shows "sync_entries enc ex uid (pre @ bad # post) k tx s =
           (case sync_entries enc ex uid (pre @ post) k tx s of (t, m) \<Rightarrow> (t, m + 1))"
proof (induction pre arbitrary: k tx s)
  case Nil
  from assms show ?case by (simp add: sync_entries_skipped)
next
  case (Cons re pre)
  show ?case
    by (simp add: Let_def UpsertTx_def Cons.IH split: option.splits exec.splits)
qed

lemma sync_entries_no_skip:
  assumes "\<forall>re\<in>set res. DecodeString enc (VaultEntryRequest.EncryptedData re) \<noteq> None"
    and "\<forall>j. ex j \<noteq> Failed"
  shows "snd (sync_entries enc ex uid res k tx s) = s"
  using assms(1)
proof (induction res arbitrary: k tx s)
  case Nil
  show ?case by simp
next
  case (Cons re res)
  from assms(2) obtain t where "ex k = Executed t" by (cases "ex k") auto
  with Cons show ?case
    by (auto simp: Let_def UpsertTx_def)
qed

lemma sync_changes_skipped:
  assumes "LastSyncedAt req' = LastSyncedAt req"
  shows "sync_changes enc env tbl uid req syncedAt (s + 1) =
     (case sync_changes enc env tbl uid req' syncedAt s of
        (Inl e, t) \<Rightarrow> (Inl e, t)
      | (Inr resp, t) \<Rightarrow> (Inr (resp\<lparr>Skipped := Skipped resp + 1\<rparr>), t))"
  using assms by (simp add: sync_changes_def split: option.splits sum.splits)

lemma sync_changes_ok:
  assumes "\<not> GetChangedSince_fails env"
  shows "\<exists>resp. sync_changes enc env tbl uid req syncedAt s = (Inr resp, tbl) \<and> Skipped resp = s"
  using assms by (simp add: sync_changes_def GetChangedSince_def split: option.splits)

lemma Sync_no_skip:
  assumes "\<forall>re\<in>set (SyncRequest.Entries req).
             DecodeString enc (VaultEntryRequest.EncryptedData re) \<noteq> None"
    and "\<forall>j. UpsertTx_exec env j \<noteq> Failed"
    and "\<not> BeginTx_fails env" and "\<not> Commit_fails env" and "\<not> GetChangedSince_fails env"
  shows "\<exists>resp t. Sync enc env tbl uid req = (Inr resp, t) \<and> Skipped resp = 0"
proof (cases "SyncRequest.Entries req = []")
  case True
  with sync_changes_ok [OF assms(5), of enc tbl uid req "time_Now env" 0] show ?thesis
    by (auto simp: Sync_def)
next
  case False
  obtain t m where tm:
    "sync_entries enc (UpsertTx_exec env) uid (SyncRequest.Entries req) 0 tbl 0 = (t, m)"
    by (cases "sync_entries enc (UpsertTx_exec env) uid (SyncRequest.Entries req) 0 tbl 0")
  with sync_entries_no_skip [OF assms(1,2), of uid 0 tbl 0] have "m = 0" by simp
  with False tm assms(3,4) sync_changes_ok [OF assms(5), of enc t uid req "time_Now env" 0]
  show ?thesis
    by (auto simp: Sync_def)
qed

text \<open>
  A round with a record that does not decode ends as the round without that record,
  with one more skipped record.
\<close>

lemma Sync_without_undecodable:
  assumes "DecodeString enc (VaultEntryRequest.EncryptedData bad) = None"
    and "\<not> BeginTx_fails env" and "\<not> Commit_fails env"
  shows "Sync enc env tbl uid (req\<lparr>SyncRequest.Entries := pre @ bad # post\<rparr>) =
           (case Sync enc env tbl uid (req\<lparr>SyncRequest.Entries := pre @ post\<rparr>) of
              (Inl e, t) \<Rightarrow> (Inl e, t)
            | (Inr resp, t) \<Rightarrow> (Inr (resp\<lparr>Skipped := Skipped resp + 1\<rparr>), t))
         \<and> ((\<forall>re\<in>set (pre @ post).
                DecodeString enc (VaultEntryRequest.EncryptedData re) \<noteq> None)
              \<and> (\<forall>j. UpsertTx_exec env j \<noteq> Failed) \<and> \<not> GetChangedSince_fails env
            \<longrightarrow> (\<exists>resp t. Sync enc env tbl uid (req\<lparr>SyncRequest.Entries := pre @ bad # post\<rparr>)
                             = (Inr resp, t) \<and> Skipped resp = 1))"
proof -
  let ?with = "req\<lparr>SyncRequest.Entries := pre @ bad # post\<rparr>"
  let ?without = "req\<lparr>SyncRequest.Entries := pre @ post\<rparr>"
  have eq: "Sync enc env tbl uid ?with =
           (case Sync enc env tbl uid ?without of
              (Inl e, t) \<Rightarrow> (Inl e, t)
            | (Inr resp, t) \<Rightarrow> (Inr (resp\<lparr>Skipped := Skipped resp + 1\<rparr>), t))"
  proof (cases "pre @ post = []")
    case True
    then have "pre = []" "post = []" by simp_all
    with assms show ?thesis
      using sync_changes_skipped [of "req\<lparr>SyncRequest.Entries := []\<rparr>"
          "req\<lparr>SyncRequest.Entries := [bad]\<rparr>" enc env tbl uid "time_Now env" 0]
      by (simp add: Sync_def)
  next
    case False
    obtain t m where
      tm: "sync_entries enc (UpsertTx_exec env) uid (pre @ post) 0 tbl 0 = (t, m)"
      by (cases "sync_entries enc (UpsertTx_exec env) uid (pre @ post) 0 tbl 0")
    with False assms show ?thesis
      using sync_changes_skipped [of ?without ?with enc env t uid "time_Now env" m]
      by (simp add: Sync_def sync_entries_undecodable)
  qed
  have "(\<forall>re\<in>set (pre @ post).
            DecodeString enc (VaultEntryRequest.EncryptedData re) \<noteq> None)
          \<and> (\<forall>j. UpsertTx_exec env j \<noteq> Failed) \<and> \<not> GetChangedSince_fails env
        \<longrightarrow> (\<exists>resp t. Sync enc env tbl uid ?with = (Inr resp, t) \<and> Skipped resp = 1)"
  proof (intro impI, elim conjE)
    assume ok1: "\<forall>re\<in>set (pre @ post).
        DecodeString enc (VaultEntryRequest.EncryptedData re) \<noteq> None"
      and ok2: "\<forall>j. UpsertTx_exec env j \<noteq> Failed"
      and ok3: "\<not> GetChangedSince_fails env"
    from ok1 have "\<forall>re\<in>set (SyncRequest.Entries ?without).
        DecodeString enc (VaultEntryRequest.EncryptedData re) \<noteq> None"
      by simp
    from Sync_no_skip [OF this ok2 assms(2,3) ok3, of tbl uid]
    obtain resp t where "Sync enc env tbl uid ?without = (Inr resp, t)" "Skipped resp = 0"
      by blast
    with eq show "\<exists>resp t. Sync enc env tbl uid ?with = (Inr resp, t) \<and> Skipped resp = 1"
      by simp
  qed
  with eq show ?thesis by blast
qed

subsection \<open>What a round does to the table\<close>

lemma upsert_ops_Nil [simp]: "upsert_ops ex k [] = []"
  by (simp add: upsert_ops_def)

lemma upsert_ops_Cons [simp]:
  "upsert_ops ex k (v # vs) = OpUpsert (ex k) v # upsert_ops ex (Suc k) vs"
  by (simp add: upsert_ops_def)

lemma length_upsert_ops [simp]: "length (upsert_ops ex k vs) = length vs"
  by (simp add: upsert_ops_def)

lemma nth_upsert_ops:
  "j < length vs \<Longrightarrow> upsert_ops ex k vs ! j = OpUpsert (ex (k + j)) (vs ! j)"
  by (simp add: upsert_ops_def nth_enumerate_eq)

lemma decoded_entries_Nil [simp]: "decoded_entries enc uid [] = []"
  by (simp add: decoded_entries_def)

lemma UserID_decoded_entries: "v \<in> set (decoded_entries enc uid res) \<Longrightarrow> UserID v = uid"
  by (induction res) (auto simp: decoded_entries_def split: option.splits)

lemma sync_entries_decoded:
  "fst (sync_entries enc ex uid res k tx s) = run (upsert_ops ex k (decoded_entries enc uid res)) tx"
proof (induction res arbitrary: k tx s)
  case Nil
  show ?case by (simp add: run_def)
next
  case (Cons re res)
  show ?case
  proof (cases "DecodeString enc (VaultEntryRequest.EncryptedData re)")
    case None
    then show ?thesis
      using Cons.IH [of k tx "s + 1"] by (simp add: decoded_entries_def)
  next
    case (Some data)
    then show ?thesis
      using Cons.IH
      by (cases "ex k")
         (simp_all add: decoded_entries_def Let_def UpsertTx_def Upsert_def run_Cons)
  qed
qed

lemma sync_entries_count:
  "snd (sync_entries enc ex uid res k tx s) =
     s + int (length (filter (\<lambda>re. DecodeString enc (VaultEntryRequest.EncryptedData re) = None) res))
       + int (length (filter (\<lambda>opn. op_exec opn = Failed)
                        (upsert_ops ex k (decoded_entries enc uid res))))"
proof (induction res arbitrary: k tx s)
  case Nil
  show ?case by simp
next
  case (Cons re res)
  show ?case
  proof (cases "DecodeString enc (VaultEntryRequest.EncryptedData re)")
    case None
    then show ?thesis
      using Cons.IH [of k tx "s + 1"] by (simp add: decoded_entries_def)
  next
    case (Some data)
    then show ?thesis
      using Cons.IH
      by (cases "ex k")
         (simp_all add: decoded_entries_def Let_def UpsertTx_def)
  qed
qed

lemma has_version_upsert:
  "has_version (VaultEntry.Version v) (UserID v) (VaultEntry.EntryID v) (upsertQuery now tbl v)"
  by (simp add: has_version_def find_row_upsertQuery on_duplicate_key_update_eq insert_row_def
        split: option.splits)

lemma has_version_step:
  assumes "has_version n uid eid tbl"
  shows "has_version n uid eid (step opn tbl)"
proof (cases opn)
  case (OpUpsert x v)
  show ?thesis
  proof (cases x)
    case Failed
    with OpUpsert assms show ?thesis by (simp add: Upsert_def)
  next
    case (Executed t)
    show ?thesis
    proof (cases "(uid, eid) = (UserID v, VaultEntry.EntryID v)")
      case True
      with assms OpUpsert Executed show ?thesis
        by (auto simp: has_version_def Upsert_def find_row_upsertQuery on_duplicate_key_update_eq
              split: option.splits)
    next
      case False
      with assms OpUpsert Executed show ?thesis
        by (simp add: has_version_def Upsert_def find_row_upsertQuery_other)
    qed
  qed
next
  case (OpSoftDelete x u e)
  show ?thesis
  proof (cases x)
    case Failed
    with OpSoftDelete assms show ?thesis by (simp add: SoftDelete_def)
  next
    case (Executed t)
    show ?thesis
    proof (cases "(uid, eid) = (u, e)")
      case True
      with assms OpSoftDelete Executed show ?thesis
        by (auto simp: has_version_def SoftDelete_def Let_def find_row_def find_softDelete
              split: option.splits)
    next
      case False
      with assms OpSoftDelete Executed show ?thesis
        by (simp add: has_version_def SoftDelete_def Let_def find_row_def find_softDelete_other)
    qed
  qed
qed

lemma has_version_run: "has_version n uid eid tbl \<Longrightarrow> has_version n uid eid (run ops tbl)"
  unfolding run_def by (induction ops arbitrary: tbl) (simp_all add: has_version_step)

lemma run_append: "run (xs @ ys) tbl = run ys (run xs tbl)"
  by (simp add: run_def)

lemma run_reaches:
  assumes "j < length ops" and "ops ! j = OpUpsert (Executed t) v"
  shows "has_version (VaultEntry.Version v) (UserID v) (VaultEntry.EntryID v) (run ops tbl)"
proof -
  obtain pre post where "ops = pre @ OpUpsert (Executed t) v # post"
    using assms id_take_nth_drop [of j ops] by metis
  then have "run ops tbl = run post (upsertQuery t (run pre tbl) v)"
    by (simp add: run_append run_Cons Upsert_def)
  then show ?thesis
    by (simp add: has_version_run has_version_upsert)
qed

lemma upsert_ops_append:
  "upsert_ops ex k (xs @ ys) = upsert_ops ex k xs @ upsert_ops ex (k + length xs) ys"
  by (simp add: upsert_ops_def enumerate_append_eq)

lemma find_row_run_other:
  "\<forall>v\<in>set vs. (UserID v, VaultEntry.EntryID v) \<noteq> (uid, eid)
     \<Longrightarrow> find_row (run (upsert_ops ex k vs) tbl) uid eid = find_row tbl uid eid"
proof (induction vs arbitrary: k tbl)
  case Nil
  show ?case by (simp add: run_def)
next
  case (Cons v vs)
  then have "find_row (step (OpUpsert (ex k) v) tbl) uid eid = find_row tbl uid eid"
    by (cases "ex k") (auto simp: Upsert_def find_row_upsertQuery_other)
  with Cons show ?case by (simp add: run_Cons)
qed

lemma find_row_upsertQuery_cong:
  "find_row tbl (UserID v) (VaultEntry.EntryID v) = find_row tbl' (UserID v) (VaultEntry.EntryID v)
     \<Longrightarrow> find_row (upsertQuery t tbl v) (UserID v) (VaultEntry.EntryID v)
          = find_row (upsertQuery t tbl' v) (UserID v) (VaultEntry.EntryID v)"
  by (simp add: find_row_upsertQuery)

lemma run_sole_record:
  assumes j: "j < length vs" and x: "ex j = Executed t"
    and sole: "\<forall>i < length vs. i \<noteq> j \<longrightarrow>
                 (UserID (vs ! i), VaultEntry.EntryID (vs ! i))
                   \<noteq> (UserID (vs ! j), VaultEntry.EntryID (vs ! j))"
  shows "find_row (run (upsert_ops ex 0 vs) tbl) (UserID (vs ! j)) (VaultEntry.EntryID (vs ! j))
           = find_row (upsertQuery t tbl (vs ! j)) (UserID (vs ! j)) (VaultEntry.EntryID (vs ! j))"
proof -
  let ?v = "vs ! j" and ?pre = "take j vs" and ?post = "drop (Suc j) vs"
  have vs: "vs = ?pre @ ?v # ?post"
    using j by (simp add: id_take_nth_drop)
  have len: "length ?pre = j" using j by simp
  have ops: "upsert_ops ex 0 vs
      = upsert_ops ex 0 ?pre @ OpUpsert (Executed t) ?v # upsert_ops ex (Suc j) ?post"
    using upsert_ops_append [of ex 0 ?pre "?v # ?post"] vs len x by simp
  have pre: "\<forall>v\<in>set ?pre. (UserID v, VaultEntry.EntryID v) \<noteq> (UserID ?v, VaultEntry.EntryID ?v)"
  proof
    fix v assume "v \<in> set ?pre"
    then obtain i where "i < j" "v = vs ! i"
      using j by (auto simp: in_set_conv_nth)
    with sole j show "(UserID v, VaultEntry.EntryID v) \<noteq> (UserID ?v, VaultEntry.EntryID ?v)"
      by auto
  qed
  have post: "\<forall>v\<in>set ?post. (UserID v, VaultEntry.EntryID v) \<noteq> (UserID ?v, VaultEntry.EntryID ?v)"
  proof
    fix v assume "v \<in> set ?post"
    then obtain i where "i < length vs - Suc j" "v = vs ! (Suc j + i)"
      using j by (auto simp: in_set_conv_nth)
    with sole j show "(UserID v, VaultEntry.EntryID v) \<noteq> (UserID ?v, VaultEntry.EntryID ?v)"
      by auto
  qed
  have "run (upsert_ops ex 0 vs) tbl
      = run (upsert_ops ex (Suc j) ?post) (upsertQuery t (run (upsert_ops ex 0 ?pre) tbl) ?v)"
    unfolding ops by (simp add: run_append run_Cons Upsert_def)
  then have "find_row (run (upsert_ops ex 0 vs) tbl) (UserID ?v) (VaultEntry.EntryID ?v)
      = find_row (upsertQuery t (run (upsert_ops ex 0 ?pre) tbl) ?v)
          (UserID ?v) (VaultEntry.EntryID ?v)"
    by (simp add: find_row_run_other [OF post])
  also have "\<dots> = find_row (upsertQuery t tbl ?v) (UserID ?v) (VaultEntry.EntryID ?v)"
    by (rule find_row_upsertQuery_cong) (rule find_row_run_other [OF pre])
  finally show ?thesis .
qed

lemma Sync_table:
  assumes "\<not> BeginTx_fails env" and "\<not> Commit_fails env"
  shows "Sync enc env tbl uid req =
           sync_changes enc env
             (run (upsert_ops (UpsertTx_exec env) 0 (decoded_entries enc uid (SyncRequest.Entries req))) tbl)
             uid req (time_Now env)
             (int (length (filter (\<lambda>re. DecodeString enc (VaultEntryRequest.EncryptedData re) = None)
                             (SyncRequest.Entries req)))
              + int (length (filter (\<lambda>opn. op_exec opn = Failed)
                     (upsert_ops (UpsertTx_exec env) 0
                        (decoded_entries enc uid (SyncRequest.Entries req))))))"
proof (cases "SyncRequest.Entries req = []")
  case True
  then show ?thesis by (simp add: Sync_def run_def)
next
  case False
  obtain t m where tm:
    "sync_entries enc (UpsertTx_exec env) uid (SyncRequest.Entries req) 0 tbl 0 = (t, m)"
    by (cases "sync_entries enc (UpsertTx_exec env) uid (SyncRequest.Entries req) 0 tbl 0")
  from tm sync_entries_decoded [of enc "UpsertTx_exec env" uid "SyncRequest.Entries req" 0 tbl 0]
  have t: "t = run (upsert_ops (UpsertTx_exec env) 0
                      (decoded_entries enc uid (SyncRequest.Entries req))) tbl"
    by simp
  from tm sync_entries_count [of enc "UpsertTx_exec env" uid "SyncRequest.Entries req" 0 tbl 0]
  have m: "m = int (length (filter (\<lambda>re. DecodeString enc (VaultEntryRequest.EncryptedData re) = None)
                             (SyncRequest.Entries req)))
              + int (length (filter (\<lambda>opn. op_exec opn = Failed)
                     (upsert_ops (UpsertTx_exec env) 0
                        (decoded_entries enc uid (SyncRequest.Entries req)))))"
    by simp
  from False assms tm show ?thesis
    unfolding t [symmetric] m [symmetric] by (simp add: Sync_def)
qed

subsection \<open>Tombstones\<close>

lemma tombstone_step:
  assumes "tombstone td uid eid tbl" and "not_before td opn"
  shows "tombstone td uid eid (step opn tbl)"
proof (cases opn)
  case (OpUpsert x v)
  show ?thesis
  proof (cases x)
    case Failed
    with OpUpsert assms show ?thesis by (simp add: Upsert_def)
  next
    case (Executed t)
    show ?thesis
    proof (cases "(uid, eid) = (UserID v, VaultEntry.EntryID v)")
      case True
      with assms(1) OpUpsert Executed show ?thesis
        by (auto simp: tombstone_def Upsert_def find_row_upsertQuery on_duplicate_key_update_eq
              split: option.splits)
    next
      case False
      with assms(1) OpUpsert Executed show ?thesis
        by (simp add: tombstone_def Upsert_def find_row_upsertQuery_other)
    qed
  qed
next
  case (OpSoftDelete x u e)
  show ?thesis
  proof (cases x)
    case Failed
    with OpSoftDelete assms show ?thesis by (simp add: SoftDelete_def)
  next
    case (Executed t)
    show ?thesis
    proof (cases "(uid, eid) = (u, e)")
      case True
      with assms OpSoftDelete Executed show ?thesis
        by (auto simp: tombstone_def SoftDelete_def Let_def find_row_def find_softDelete
              split: option.splits)
    next
      case False
      with assms(1) OpSoftDelete Executed show ?thesis
        by (simp add: tombstone_def SoftDelete_def Let_def find_row_def find_softDelete_other)
    qed
  qed
qed

lemma tombstone_run:
  "tombstone td uid eid tbl \<Longrightarrow> \<forall>opn\<in>set ops. not_before td opn
     \<Longrightarrow> tombstone td uid eid (run ops tbl)"
  unfolding run_def
  by (induction ops arbitrary: tbl) (simp_all add: tombstone_step del: not_before.simps)

text \<open>
  Let an entry that has a row be soft-deleted with stamp \<open>td\<close>, and let any history follow
  in which no statement is stamped below \<open>td\<close>. Then the entry still has its row, and the
  change query returns it for every cursor below the stamp \<open>td\<close>. The row is also still
  marked deleted: an upsert does not assign \<^verbatim>\<open>deleted\<close> anew (the defect of C1).
\<close>

lemma tombstone_kept_below_stamp:
  assumes "find_row tbl uid eid \<noteq> None"
    and "\<forall>opn\<in>set ops. not_before td opn"
    and "c < int td"
  shows "\<exists>r. find_row (run ops (snd (SoftDelete (Executed td) tbl uid eid))) uid eid = Some r
            \<and> deleted r
            \<and> (\<exists>es. GetChangedSince False (run ops (snd (SoftDelete (Executed td) tbl uid eid)))
                       uid c = Inr es
                    \<and> scan r \<in> set es)"
proof -
  let ?t0 = "snd (SoftDelete (Executed td) tbl uid eid)"
  have "tombstone td uid eid ?t0"
    using assms(1)
    by (auto simp: tombstone_def SoftDelete_def Let_def find_row_def find_softDelete)
  then have "tombstone td uid eid (run ops ?t0)"
    using assms(2) by (rule tombstone_run)
  then obtain r where
    r: "find_row (run ops ?t0) uid eid = Some r" "deleted r" "td \<le> updated_at r"
    by (auto simp: tombstone_def split: option.splits)
  from r(1) have "r \<in> set (run ops ?t0)" "user_id r = uid"
    by (auto simp: find_row_def key_is_def dest: find_Some_set)
  with r(3) assms(3) have "scan r \<in> set (map scan (sort_key updated_at
       (filter (\<lambda>r. user_id r = uid \<and> int (updated_at r) > c) (run ops ?t0))))"
    by auto
  with r(1,2) show ?thesis
    by (auto simp: GetChangedSince_def)
qed

subsection \<open>The change query\<close>

lemma sorted_map_int: "sorted (map f xs) \<Longrightarrow> sorted (map (\<lambda>x. int (f x)) xs)"
  by (induction xs) auto

lemma UpdatedAt_entriesToResponse:
  "map VaultEntryResponse.UpdatedAt (entriesToResponse enc (map scan rows))
     = map (\<lambda>r. int (updated_at r)) rows"
  by (simp add: entriesToResponse_def scan_def)

lemma after_zero_time: "int n > zero_time"
  by (simp add: zero_time_def)

section \<open>The claims\<close>

subsection \<open>C1: what an accepted write replaces\<close>

text \<open>
  C1 says that a write whose version is strictly greater than the stored one replaces
  the stored payload, version, deleted flag and \<^verbatim>\<open>updated_at\<close>, and that any other write
  leaves the row as it is. The second half holds (\<open>find_row_upsertQuery\<close> with
  \<open>on_duplicate_key_update_eq\<close>). The first half does not: in \<^verbatim>\<open>upsertQuery\<close> the column
  \<^verbatim>\<open>version\<close> is assigned before \<^verbatim>\<open>deleted\<close> and \<^verbatim>\<open>updated_at\<close>, so the guards of these two
  compare the incoming version with itself. The run below stores version 1, not deleted,
  stamped 100, and executes at database time 200 a write of version 2 that is marked
  deleted: payload and version are replaced, the deleted flag and \<^verbatim>\<open>updated_at\<close> are not.
\<close>

theorem Upsert_newer_version_keeps_deleted_and_updated_at:
  "find_row
     (snd (Upsert (Executed 200)
        [\<lparr>user_id = 1, entry_id = ''e1'', encrypted_data = [1], version = 1,
          created_at = 100, updated_at = 100, deleted = False\<rparr>]
        (entry 1 ''e1'' [2] 2 True))) 1 ''e1''
   = Some \<lparr>user_id = 1, entry_id = ''e1'', encrypted_data = [2], version = 2,
           created_at = 100, updated_at = 100, deleted = False\<rparr>"
  by (simp add: Upsert_def upsertQuery_def find_row_def key_is_def entry_def
        on_duplicate_key_update_def)

subsection \<open>C2: two writes in either order\<close>

text \<open>
  C2 says that two writes to one key with versions \<open>v1 < v2\<close>, applied in either order,
  leave the key with the payload and the deleted flag of the \<open>v2\<close> write and with version
  \<open>v2\<close>. As stated it fails twice. A key that is already stored with version 5 keeps its
  row whatever the order of two writes with versions 1 and 2: the guard of the upsert
  rejects both. And on a key that is not stored yet, the order decides the deleted flag:
  the write that arrives first inserts its flag, and a later accepted write does not
  replace it (the defect of C1).
\<close>

theorem Upsert_two_writes_counterexample:
  "find_row (snd (Upsert (Executed 20) (snd (Upsert (Executed 10)
       [\<lparr>user_id = 1, entry_id = ''e1'', encrypted_data = [9], version = 5,
         created_at = 1, updated_at = 1, deleted = False\<rparr>]
       (entry 1 ''e1'' [1] 1 False))) (entry 1 ''e1'' [2] 2 True))) 1 ''e1''
     = Some \<lparr>user_id = 1, entry_id = ''e1'', encrypted_data = [9], version = 5,
         created_at = 1, updated_at = 1, deleted = False\<rparr>
   \<and> map_option deleted (find_row (snd (Upsert (Executed 20) (snd (Upsert (Executed 10) []
       (entry 1 ''e1'' [1] 1 False))) (entry 1 ''e1'' [2] 2 True))) 1 ''e1'') = Some False
   \<and> map_option deleted (find_row (snd (Upsert (Executed 20) (snd (Upsert (Executed 10) []
       (entry 1 ''e1'' [2] 2 True))) (entry 1 ''e1'' [1] 1 False))) 1 ''e1'') = Some True"
  by (simp add: Upsert_def upsertQuery_def find_row_def key_is_def entry_def
        on_duplicate_key_update_def insert_row_def)

text \<open>
  C2, amended. For every table and every two writes \<open>w1\<close>, \<open>w2\<close> to one key with
  versions \<open>v1 < v2\<close>, both executed: the payload and the version stored for the key are
  the same whichever write is executed first; and if the key was not stored, or was
  stored with a version below \<open>v2\<close>, they are the payload of \<open>w2\<close> and \<open>v2\<close>.
\<close>

theorem Upsert_two_writes_payload_version:
  assumes "UserID w1 = UserID w2" and "VaultEntry.EntryID w1 = VaultEntry.EntryID w2"
    and "VaultEntry.Version w1 < VaultEntry.Version w2"
  shows "map_option (\<lambda>r. (encrypted_data r, version r))
           (find_row (snd (Upsert (Executed tb) (snd (Upsert (Executed ta) tbl w1)) w2))
              (UserID w2) (VaultEntry.EntryID w2))
       = map_option (\<lambda>r. (encrypted_data r, version r))
           (find_row (snd (Upsert (Executed tb) (snd (Upsert (Executed ta) tbl w2)) w1))
              (UserID w2) (VaultEntry.EntryID w2))
     \<and> ((\<forall>r. find_row tbl (UserID w2) (VaultEntry.EntryID w2) = Some r
             \<longrightarrow> version r < VaultEntry.Version w2) \<longrightarrow>
         map_option (\<lambda>r. (encrypted_data r, version r))
           (find_row (snd (Upsert (Executed tb) (snd (Upsert (Executed ta) tbl w1)) w2))
              (UserID w2) (VaultEntry.EntryID w2))
         = Some (VaultEntry.EncryptedData w2, VaultEntry.Version w2))"
proof -
  have A: "find_row (upsertQuery tb (upsertQuery ta tbl w1) w2) (UserID w2) (VaultEntry.EntryID w2)
      = (case find_row tbl (UserID w2) (VaultEntry.EntryID w2) of
           None \<Rightarrow> Some (on_duplicate_key_update tb w2 (insert_row ta w1))
         | Some r \<Rightarrow> Some (on_duplicate_key_update tb w2 (on_duplicate_key_update ta w1 r)))"
    using find_row_upsertQuery [of ta tbl w1] assms(1,2)
    by (simp add: find_row_upsertQuery split: option.splits)
  have B: "find_row (upsertQuery tb (upsertQuery ta tbl w2) w1) (UserID w2) (VaultEntry.EntryID w2)
      = (case find_row tbl (UserID w2) (VaultEntry.EntryID w2) of
           None \<Rightarrow> Some (on_duplicate_key_update tb w1 (insert_row ta w2))
         | Some r \<Rightarrow> Some (on_duplicate_key_update tb w1 (on_duplicate_key_update ta w2 r)))"
    using find_row_upsertQuery [of tb "upsertQuery ta tbl w2" w1] assms(1,2)
    by (simp add: find_row_upsertQuery split: option.splits)
  show ?thesis
    using assms(3)
    by (auto simp: Upsert_def A B on_duplicate_key_update_eq insert_row_def split: option.splits)
qed

text \<open>
  Witness for C2, amended: the key is stored with version 1, the writes have versions 2
  and 3; in either order the key ends with the payload of the second write and version 3.
\<close>

theorem Upsert_two_writes_payload_version_witness:
  "map_option (\<lambda>r. (encrypted_data r, version r))
     (find_row (snd (Upsert (Executed 20) (snd (Upsert (Executed 10)
        [\<lparr>user_id = 1, entry_id = ''e1'', encrypted_data = [1], version = 1,
          created_at = 1, updated_at = 1, deleted = False\<rparr>]
        (entry 1 ''e1'' [2] 2 False))) (entry 1 ''e1'' [3] 3 True))) 1 ''e1'')
   = Some ([3], 3)
   \<and> map_option (\<lambda>r. (encrypted_data r, version r))
     (find_row (snd (Upsert (Executed 20) (snd (Upsert (Executed 10)
        [\<lparr>user_id = 1, entry_id = ''e1'', encrypted_data = [1], version = 1,
          created_at = 1, updated_at = 1, deleted = False\<rparr>]
        (entry 1 ''e1'' [3] 3 True))) (entry 1 ''e1'' [2] 2 False))) 1 ''e1'')
   = Some ([3], 3)"
proof -
  let ?w1 = "entry 1 ''e1'' [2] 2 False" and ?w2 = "entry 1 ''e1'' [3] 3 True"
  let ?tbl = "[\<lparr>user_id = 1, entry_id = ''e1'', encrypted_data = [1], version = 1,
          created_at = 1, updated_at = 1, deleted = False\<rparr>]"
  have h1: "UserID ?w1 = UserID ?w2" by (simp add: entry_def)
  have h2: "VaultEntry.EntryID ?w1 = VaultEntry.EntryID ?w2" by (simp add: entry_def)
  have h3: "VaultEntry.Version ?w1 < VaultEntry.Version ?w2" by (simp add: entry_def)
  have h4: "\<forall>r. find_row ?tbl (UserID ?w2) (VaultEntry.EntryID ?w2) = Some r
             \<longrightarrow> version r < VaultEntry.Version ?w2"
    by (simp add: find_row_def key_is_def entry_def)
  have e: "UserID ?w2 = 1" "VaultEntry.EntryID ?w2 = ''e1''"
      "VaultEntry.EncryptedData ?w2 = [3]" "VaultEntry.Version ?w2 = 3"
    by (simp_all add: entry_def)
  note T = Upsert_two_writes_payload_version [OF h1 h2 h3, of 20 10 ?tbl, unfolded e]
  note a = T [THEN conjunct1]
  note b = T [THEN conjunct2, THEN mp, OF h4 [unfolded e]]
  show ?thesis
    by (rule conjI [OF b]) (rule trans [OF a [symmetric] b])
qed

subsection \<open>C3: a failed commit\<close>

text \<open>
  C3. If a round has incoming records and the commit of its transaction fails, \<^verbatim>\<open>Sync\<close>
  returns an error and the table is the one the round started with: no incoming record
  has taken effect.
\<close>

theorem Sync_commit_failure_rolls_back:
  assumes "SyncRequest.Entries req \<noteq> []" and "Commit_fails env"
  shows "Sync enc env tbl userID req = (Inl ErrDriver, tbl)"
  using assms by (simp add: Sync_def split: prod.splits)

text \<open>
  Witness for C3: the key is stored with version 1, the round brings version 2, the
  commit fails; the stored row is still the one with version 1.
\<close>

theorem Sync_commit_failure_rolls_back_witness:
  "SyncRequest.Entries \<lparr>LastSyncedAt = None,
       SyncRequest.Entries = [request ''e1'' ''dGVzdA=='' 2 False]\<rparr> \<noteq> []
   \<and> Commit_fails ((all_ok 5000 100)\<lparr>Commit_fails := True\<rparr>)
   \<and> Sync StdEncoding ((all_ok 5000 100)\<lparr>Commit_fails := True\<rparr>)
        [\<lparr>user_id = 1, entry_id = ''e1'', encrypted_data = [9], version = 1,
          created_at = 10, updated_at = 10, deleted = False\<rparr>] 1
        \<lparr>LastSyncedAt = None, SyncRequest.Entries = [request ''e1'' ''dGVzdA=='' 2 False]\<rparr>
      = (Inl ErrDriver,
         [\<lparr>user_id = 1, entry_id = ''e1'', encrypted_data = [9], version = 1,
           created_at = 10, updated_at = 10, deleted = False\<rparr>])"
proof -
  let ?req = "\<lparr>LastSyncedAt = None, SyncRequest.Entries = [request ''e1'' ''dGVzdA=='' 2 False]\<rparr>"
  let ?env = "(all_ok 5000 100)\<lparr>Commit_fails := True\<rparr>"
  have h1: "SyncRequest.Entries ?req \<noteq> []" by simp
  have h2: "Commit_fails ?env" by simp
  from h1 h2 Sync_commit_failure_rolls_back [OF h1 h2] show ?thesis by blast
qed

subsection \<open>C4: a payload that does not decode\<close>

text \<open>
  C4. Take a round whose transaction begins and commits, with any batch. The table after
  the round is the table before it with the upsert of the repository executed, in the
  order of the batch, for exactly the records whose payload decodes: a record whose payload
  does not decode sends no statement and changes nothing, and it stops neither the records
  before it nor those after it. Every record that decodes and whose statement is executed
  has a row under its identifier afterwards, with a version that is not below its own;
  and if no other decodable record of the batch has its identifier, that row is the one
  which a single \<^verbatim>\<open>Upsert\<close> of the record into the table of before the round leaves (the
  record itself, stamped with the time of its statement, if the identifier was new).
  And unless the change query fails, the round ends with a response, not with an error,
  in which \<^verbatim>\<open>skipped\<close> counts one for each record that does not decode and one for each
  failed statement: with one malformed record among three and no failure it is 1. (What
  the upsert makes of a row that is stored already is the subject of C1.)
\<close>

theorem Sync_applies_decodable_skips_undecodable:
  assumes "\<not> BeginTx_fails env" and "\<not> Commit_fails env"
  shows "snd (Sync enc env tbl uid req)
           = run (upsert_ops (UpsertTx_exec env) 0
                    (decoded_entries enc uid (SyncRequest.Entries req))) tbl
       \<and> (\<forall>j < length (decoded_entries enc uid (SyncRequest.Entries req)).
             UpsertTx_exec env j \<noteq> Failed \<longrightarrow>
             (\<exists>r. find_row (snd (Sync enc env tbl uid req)) uid
                     (VaultEntry.EntryID (decoded_entries enc uid (SyncRequest.Entries req) ! j))
                     = Some r
                 \<and> VaultEntry.Version (decoded_entries enc uid (SyncRequest.Entries req) ! j)
                     \<le> version r))
       \<and> (\<forall>j < length (decoded_entries enc uid (SyncRequest.Entries req)). \<forall>t.
             UpsertTx_exec env j = Executed t
             \<and> (\<forall>i < length (decoded_entries enc uid (SyncRequest.Entries req)). i \<noteq> j \<longrightarrow>
                   VaultEntry.EntryID (decoded_entries enc uid (SyncRequest.Entries req) ! i)
                     \<noteq> VaultEntry.EntryID (decoded_entries enc uid (SyncRequest.Entries req) ! j))
             \<longrightarrow>
             find_row (snd (Sync enc env tbl uid req)) uid
                 (VaultEntry.EntryID (decoded_entries enc uid (SyncRequest.Entries req) ! j))
               = find_row
                   (snd (Upsert (Executed t) tbl
                          (decoded_entries enc uid (SyncRequest.Entries req) ! j))) uid
                   (VaultEntry.EntryID (decoded_entries enc uid (SyncRequest.Entries req) ! j)))
       \<and> (\<not> GetChangedSince_fails env \<longrightarrow>
             (\<exists>resp. fst (Sync enc env tbl uid req) = Inr resp
                \<and> Skipped resp =
                    int (length (filter
                           (\<lambda>re. DecodeString enc (VaultEntryRequest.EncryptedData re) = None)
                           (SyncRequest.Entries req)))
                    + int (length (filter (\<lambda>opn. op_exec opn = Failed)
                           (upsert_ops (UpsertTx_exec env) 0
                              (decoded_entries enc uid (SyncRequest.Entries req)))))))"
proof -
  let ?vs = "decoded_entries enc uid (SyncRequest.Entries req)"
  let ?ops = "upsert_ops (UpsertTx_exec env) 0 ?vs"
  note S = Sync_table [OF assms, of enc tbl uid req]
  have tab: "snd (Sync enc env tbl uid req) = run ?ops tbl"
    unfolding S by (simp add: snd_sync_changes)
  have reach: "\<forall>j < length ?vs. UpsertTx_exec env j \<noteq> Failed \<longrightarrow>
      (\<exists>r. find_row (snd (Sync enc env tbl uid req)) uid (VaultEntry.EntryID (?vs ! j)) = Some r
           \<and> VaultEntry.Version (?vs ! j) \<le> version r)"
  proof (intro allI impI)
    fix j
    assume j: "j < length ?vs" and x: "UpsertTx_exec env j \<noteq> Failed"
    from x obtain t where t: "UpsertTx_exec env j = Executed t"
      by (cases "UpsertTx_exec env j") auto
    from j have "?ops ! j = OpUpsert (Executed t) (?vs ! j)"
      using nth_upsert_ops [of j ?vs "UpsertTx_exec env" 0] t by simp
    with j have "has_version (VaultEntry.Version (?vs ! j)) (UserID (?vs ! j))
                   (VaultEntry.EntryID (?vs ! j)) (run ?ops tbl)"
      by (intro run_reaches [where j = j and t = t]) simp_all
    moreover from j have "UserID (?vs ! j) = uid"
      by (intro UserID_decoded_entries [where enc = enc and res = "SyncRequest.Entries req"]) simp
    ultimately show "\<exists>r. find_row (snd (Sync enc env tbl uid req)) uid
                          (VaultEntry.EntryID (?vs ! j)) = Some r
                      \<and> VaultEntry.Version (?vs ! j) \<le> version r"
      unfolding tab by (auto simp: has_version_def split: option.splits)
  qed
  let ?n = "int (length (filter
                           (\<lambda>re. DecodeString enc (VaultEntryRequest.EncryptedData re) = None)
                           (SyncRequest.Entries req)))
            + int (length (filter (\<lambda>opn. op_exec opn = Failed) ?ops))"
  have resp: "\<not> GetChangedSince_fails env \<longrightarrow>
      (\<exists>resp. fst (Sync enc env tbl uid req) = Inr resp \<and> Skipped resp = ?n)"
  proof
    assume ok: "\<not> GetChangedSince_fails env"
    from sync_changes_ok [OF ok, of enc "run ?ops tbl" uid req "time_Now env" ?n]
    obtain resp where "sync_changes enc env (run ?ops tbl) uid req (time_Now env) ?n
        = (Inr resp, run ?ops tbl)" "Skipped resp = ?n"
      by blast
    then show "\<exists>resp. fst (Sync enc env tbl uid req) = Inr resp \<and> Skipped resp = ?n"
      unfolding S by simp
  qed
  have own: "\<forall>j < length ?vs. \<forall>t.
      UpsertTx_exec env j = Executed t
      \<and> (\<forall>i < length ?vs. i \<noteq> j \<longrightarrow>
            VaultEntry.EntryID (?vs ! i) \<noteq> VaultEntry.EntryID (?vs ! j))
      \<longrightarrow> find_row (snd (Sync enc env tbl uid req)) uid (VaultEntry.EntryID (?vs ! j))
            = find_row (snd (Upsert (Executed t) tbl (?vs ! j))) uid
                (VaultEntry.EntryID (?vs ! j))"
  proof (intro allI impI, elim conjE)
    fix j t
    assume j: "j < length ?vs" and x: "UpsertTx_exec env j = Executed t"
      and others: "\<forall>i < length ?vs. i \<noteq> j \<longrightarrow>
            VaultEntry.EntryID (?vs ! i) \<noteq> VaultEntry.EntryID (?vs ! j)"
    from j have u: "UserID (?vs ! j) = uid"
      by (intro UserID_decoded_entries [where enc = enc and res = "SyncRequest.Entries req"]) simp
    from others have "\<forall>i < length ?vs. i \<noteq> j \<longrightarrow>
        (UserID (?vs ! i), VaultEntry.EntryID (?vs ! i))
          \<noteq> (UserID (?vs ! j), VaultEntry.EntryID (?vs ! j))"
      by simp
    from run_sole_record [where vs = ?vs and ex = "UpsertTx_exec env" and tbl = tbl, OF j x this]
    show "find_row (snd (Sync enc env tbl uid req)) uid (VaultEntry.EntryID (?vs ! j))
            = find_row (snd (Upsert (Executed t) tbl (?vs ! j))) uid
                (VaultEntry.EntryID (?vs ! j))"
      unfolding tab u by (simp add: Upsert_def)
  qed
  from tab reach own resp show ?thesis by blast
qed

text \<open>
  Witness for C4: the key \<open>e1\<close> is stored with version 1. The batch brings \<open>e1\<close> with
  version 2, \<open>e2\<close> with a payload that is not base64, and a new key \<open>e3\<close> with version
  0. The response reports one skipped record; \<open>e1\<close> holds the new payload and version 2,
  \<open>e3\<close> is stored with version 1, and both are among the outbound entries.
\<close>

theorem Sync_applies_decodable_skips_undecodable_witness:
  "\<not> BeginTx_fails (all_ok 5000 100) \<and> \<not> Commit_fails (all_ok 5000 100)
   \<and> Sync StdEncoding (all_ok 5000 100)
        [\<lparr>user_id = 1, entry_id = ''e1'', encrypted_data = [9], version = 1,
          created_at = 10, updated_at = 10, deleted = False\<rparr>] 1
        \<lparr>LastSyncedAt = None, SyncRequest.Entries =
           [request ''e1'' ''dGVzdA=='' 2 False, request ''e2'' ''%%%%'' 1 False,
            request ''e3'' ''dGVzdA=='' 0 True]\<rparr>
      = (Inr \<lparr>SyncedAt = 5000,
              SyncResponse.Entries =
                [\<lparr>VaultEntryResponse.EntryID = ''e1'', VaultEntryResponse.EncryptedData = ''dGVzdA=='',
                  VaultEntryResponse.Version = 2, VaultEntryResponse.UpdatedAt = 10,
                  VaultEntryResponse.Deleted = False\<rparr>,
                 \<lparr>VaultEntryResponse.EntryID = ''e3'', VaultEntryResponse.EncryptedData = ''dGVzdA=='',
                  VaultEntryResponse.Version = 1, VaultEntryResponse.UpdatedAt = 101,
                  VaultEntryResponse.Deleted = True\<rparr>],
              Skipped = 1\<rparr>,
         [\<lparr>user_id = 1, entry_id = ''e1'', encrypted_data = [116, 101, 115, 116], version = 2,
           created_at = 10, updated_at = 10, deleted = False\<rparr>,
          \<lparr>user_id = 1, entry_id = ''e3'', encrypted_data = [116, 101, 115, 116], version = 1,
           created_at = 101, updated_at = 101, deleted = True\<rparr>])
   \<and> snd (Sync StdEncoding (all_ok 5000 100)
        [\<lparr>user_id = 1, entry_id = ''e1'', encrypted_data = [9], version = 1,
          created_at = 10, updated_at = 10, deleted = False\<rparr>] 1
        \<lparr>LastSyncedAt = None, SyncRequest.Entries =
           [request ''e1'' ''dGVzdA=='' 2 False, request ''e2'' ''%%%%'' 1 False,
            request ''e3'' ''dGVzdA=='' 0 True]\<rparr>)
      = run [OpUpsert (Executed 100) (entry 1 ''e1'' [116, 101, 115, 116] 2 False),
             OpUpsert (Executed 101) (entry 1 ''e3'' [116, 101, 115, 116] 1 True)]
          [\<lparr>user_id = 1, entry_id = ''e1'', encrypted_data = [9], version = 1,
            created_at = 10, updated_at = 10, deleted = False\<rparr>]"
proof -
  let ?tbl = "[\<lparr>user_id = 1, entry_id = ''e1'', encrypted_data = [9], version = 1,
          created_at = 10, updated_at = 10, deleted = False\<rparr>]"
  let ?req = "\<lparr>LastSyncedAt = None, SyncRequest.Entries =
           [request ''e1'' ''dGVzdA=='' 2 False, request ''e2'' ''%%%%'' 1 False,
            request ''e3'' ''dGVzdA=='' 0 True]\<rparr>"
  have h1: "\<not> BeginTx_fails (all_ok 5000 100)" by (simp add: all_ok_def)
  have h2: "\<not> Commit_fails (all_ok 5000 100)" by (simp add: all_ok_def)
  have full: "Sync StdEncoding (all_ok 5000 100) ?tbl 1 ?req
      = (Inr \<lparr>SyncedAt = 5000,
              SyncResponse.Entries =
                [\<lparr>VaultEntryResponse.EntryID = ''e1'', VaultEntryResponse.EncryptedData = ''dGVzdA=='',
                  VaultEntryResponse.Version = 2, VaultEntryResponse.UpdatedAt = 10,
                  VaultEntryResponse.Deleted = False\<rparr>,
                 \<lparr>VaultEntryResponse.EntryID = ''e3'', VaultEntryResponse.EncryptedData = ''dGVzdA=='',
                  VaultEntryResponse.Version = 1, VaultEntryResponse.UpdatedAt = 101,
                  VaultEntryResponse.Deleted = True\<rparr>],
              Skipped = 1\<rparr>,
         [\<lparr>user_id = 1, entry_id = ''e1'', encrypted_data = [116, 101, 115, 116], version = 2,
           created_at = 10, updated_at = 10, deleted = False\<rparr>,
          \<lparr>user_id = 1, entry_id = ''e3'', encrypted_data = [116, 101, 115, 116], version = 1,
           created_at = 101, updated_at = 101, deleted = True\<rparr>])"
    by (simp add: eval_defs on_duplicate_key_update_def)
  have ops: "upsert_ops (UpsertTx_exec (all_ok 5000 100)) 0
               (decoded_entries StdEncoding 1 (SyncRequest.Entries ?req))
      = [OpUpsert (Executed 100) (entry 1 ''e1'' [116, 101, 115, 116] 2 False),
         OpUpsert (Executed 101) (entry 1 ''e3'' [116, 101, 115, 116] 1 True)]"
    by (simp add: decoded_entries_def entry_def request_def all_ok_def zero_time_def
          StdEncoding_def encodeStd_def quantum_def)
  note T = Sync_applies_decodable_skips_undecodable [OF h1 h2, of StdEncoding ?tbl 1 ?req, THEN conjunct1, unfolded ops]
  from h1 h2 full T show ?thesis by blast
qed

subsection \<open>C5: the outbound entries\<close>

text \<open>
  C5. Whenever a round succeeds, its outbound entries are in ascending order of
  \<^verbatim>\<open>updated_at\<close>. If the request has no cursor (\<^verbatim>\<open>last_synced_at\<close> is null), they are, as
  a multiset, the entries of all rows the owner has in the table once the round's own
  records are dealt with: every row, whether marked deleted or not. If the request has
  the cursor \<open>c\<close>, they are the entries of exactly those rows of the owner whose
  \<^verbatim>\<open>updated_at\<close> is greater than \<open>c\<close>.
\<close>

theorem Sync_outbound_entries:
  assumes "Sync enc env tbl uid req = (Inr resp, tbl')"
  shows "(LastSyncedAt req = None \<longrightarrow>
            mset (SyncResponse.Entries resp)
              = mset (entriesToResponse enc (map scan (filter (\<lambda>r. user_id r = uid) tbl'))))
       \<and> (\<forall>c. LastSyncedAt req = Some c \<longrightarrow>
            mset (SyncResponse.Entries resp)
              = mset (entriesToResponse enc
                        (map scan (filter (\<lambda>r. user_id r = uid \<and> int (updated_at r) > c) tbl'))))
       \<and> sorted (map VaultEntryResponse.UpdatedAt (SyncResponse.Entries resp))"
proof -
  obtain s syncedAt where ch: "sync_changes enc env tbl' uid req syncedAt s = (Inr resp, tbl')"
    using assms
    by (auto simp: Sync_def Let_def sync_changes_def
          split: if_splits prod.splits option.splits sum.splits)
  let ?since = "case LastSyncedAt req of None \<Rightarrow> zero_time | Some t \<Rightarrow> t"
  let ?rows = "sort_key updated_at
                 (filter (\<lambda>r. user_id r = uid \<and> int (updated_at r) > ?since) tbl')"
  from ch have E: "SyncResponse.Entries resp = entriesToResponse enc (map scan ?rows)"
    by (auto simp: sync_changes_def GetChangedSince_def split: option.splits if_splits)
  have "sorted (map updated_at ?rows)" by simp
  then have S: "sorted (map VaultEntryResponse.UpdatedAt (SyncResponse.Entries resp))"
    unfolding E UpdatedAt_entriesToResponse by (rule sorted_map_int)
  have N: "LastSyncedAt req = None \<Longrightarrow>
          mset (SyncResponse.Entries resp)
            = mset (entriesToResponse enc (map scan (filter (\<lambda>r. user_id r = uid) tbl')))"
    unfolding E by (simp add: entriesToResponse_def after_zero_time)
  have C: "\<forall>c. LastSyncedAt req = Some c \<longrightarrow>
          mset (SyncResponse.Entries resp)
            = mset (entriesToResponse enc
                      (map scan (filter (\<lambda>r. user_id r = uid \<and> int (updated_at r) > c) tbl')))"
    unfolding E by (simp add: entriesToResponse_def)
  from S N C show ?thesis by blast
qed

text \<open>
  Witness for C5: owner 1 has a row marked deleted, stamped 50, and a live row stamped
  20; owner 2 has a row as well. A first sync of owner 1 returns both rows of owner 1, the
  one stamped 20 first, the deleted one marked as such; a sync with the cursor 20 returns
  the row stamped 50 alone.
\<close>

theorem Sync_outbound_entries_witness:
  "Sync StdEncoding (all_ok 5000 100)
     [\<lparr>user_id = 1, entry_id = ''e1'', encrypted_data = [116, 101, 115, 116], version = 4,
       created_at = 10, updated_at = 50, deleted = True\<rparr>,
      \<lparr>user_id = 2, entry_id = ''e1'', encrypted_data = [116, 101, 115, 116], version = 1,
       created_at = 15, updated_at = 15, deleted = False\<rparr>,
      \<lparr>user_id = 1, entry_id = ''e2'', encrypted_data = [116, 101, 115, 116], version = 1,
       created_at = 20, updated_at = 20, deleted = False\<rparr>] 1
     \<lparr>LastSyncedAt = None, SyncRequest.Entries = []\<rparr>
   = (Inr \<lparr>SyncedAt = 5000,
           SyncResponse.Entries =
             [\<lparr>VaultEntryResponse.EntryID = ''e2'', VaultEntryResponse.EncryptedData = ''dGVzdA=='',
               VaultEntryResponse.Version = 1, VaultEntryResponse.UpdatedAt = 20,
               VaultEntryResponse.Deleted = False\<rparr>,
              \<lparr>VaultEntryResponse.EntryID = ''e1'', VaultEntryResponse.EncryptedData = ''dGVzdA=='',
               VaultEntryResponse.Version = 4, VaultEntryResponse.UpdatedAt = 50,
               VaultEntryResponse.Deleted = True\<rparr>],
           Skipped = 0\<rparr>,
      [\<lparr>user_id = 1, entry_id = ''e1'', encrypted_data = [116, 101, 115, 116], version = 4,
        created_at = 10, updated_at = 50, deleted = True\<rparr>,
       \<lparr>user_id = 2, entry_id = ''e1'', encrypted_data = [116, 101, 115, 116], version = 1,
        created_at = 15, updated_at = 15, deleted = False\<rparr>,
       \<lparr>user_id = 1, entry_id = ''e2'', encrypted_data = [116, 101, 115, 116], version = 1,
        created_at = 20, updated_at = 20, deleted = False\<rparr>])
   \<and> sorted [20, 50 :: int]
   \<and> Sync StdEncoding (all_ok 5000 100)
     [\<lparr>user_id = 1, entry_id = ''e1'', encrypted_data = [116, 101, 115, 116], version = 4,
       created_at = 10, updated_at = 50, deleted = True\<rparr>,
      \<lparr>user_id = 2, entry_id = ''e1'', encrypted_data = [116, 101, 115, 116], version = 1,
       created_at = 15, updated_at = 15, deleted = False\<rparr>,
      \<lparr>user_id = 1, entry_id = ''e2'', encrypted_data = [116, 101, 115, 116], version = 1,
       created_at = 20, updated_at = 20, deleted = False\<rparr>] 1
     \<lparr>LastSyncedAt = Some 20, SyncRequest.Entries = []\<rparr>
   = (Inr \<lparr>SyncedAt = 5000,
           SyncResponse.Entries =
             [\<lparr>VaultEntryResponse.EntryID = ''e1'', VaultEntryResponse.EncryptedData = ''dGVzdA=='',
               VaultEntryResponse.Version = 4, VaultEntryResponse.UpdatedAt = 50,
               VaultEntryResponse.Deleted = True\<rparr>],
           Skipped = 0\<rparr>,
      [\<lparr>user_id = 1, entry_id = ''e1'', encrypted_data = [116, 101, 115, 116], version = 4,
        created_at = 10, updated_at = 50, deleted = True\<rparr>,
       \<lparr>user_id = 2, entry_id = ''e1'', encrypted_data = [116, 101, 115, 116], version = 1,
        created_at = 15, updated_at = 15, deleted = False\<rparr>,
       \<lparr>user_id = 1, entry_id = ''e2'', encrypted_data = [116, 101, 115, 116], version = 1,
        created_at = 20, updated_at = 20, deleted = False\<rparr>])
   \<and> mset [\<lparr>VaultEntryResponse.EntryID = ''e1'', VaultEntryResponse.EncryptedData = ''dGVzdA=='',
               VaultEntryResponse.Version = 4, VaultEntryResponse.UpdatedAt = 50,
               VaultEntryResponse.Deleted = True\<rparr>]
     = mset (entriesToResponse StdEncoding (map scan (filter (\<lambda>r. user_id r = 1 \<and> int (updated_at r) > 20)
     [\<lparr>user_id = 1, entry_id = ''e1'', encrypted_data = [116, 101, 115, 116], version = 4,
        created_at = 10, updated_at = 50, deleted = True\<rparr>,
       \<lparr>user_id = 2, entry_id = ''e1'', encrypted_data = [116, 101, 115, 116], version = 1,
        created_at = 15, updated_at = 15, deleted = False\<rparr>,
       \<lparr>user_id = 1, entry_id = ''e2'', encrypted_data = [116, 101, 115, 116], version = 1,
        created_at = 20, updated_at = 20, deleted = False\<rparr>])))"
proof -
  let ?tbl = "[\<lparr>user_id = 1, entry_id = ''e1'', encrypted_data = [116, 101, 115, 116], version = 4,
       created_at = 10, updated_at = 50, deleted = True\<rparr>,
      \<lparr>user_id = 2, entry_id = ''e1'', encrypted_data = [116, 101, 115, 116], version = 1,
       created_at = 15, updated_at = 15, deleted = False\<rparr>,
      \<lparr>user_id = 1, entry_id = ''e2'', encrypted_data = [116, 101, 115, 116], version = 1,
       created_at = 20, updated_at = 20, deleted = False\<rparr>]"
  let ?e1 = "\<lparr>VaultEntryResponse.EntryID = ''e1'', VaultEntryResponse.EncryptedData = ''dGVzdA=='',
               VaultEntryResponse.Version = 4, VaultEntryResponse.UpdatedAt = 50,
               VaultEntryResponse.Deleted = True\<rparr>"
  let ?e2 = "\<lparr>VaultEntryResponse.EntryID = ''e2'', VaultEntryResponse.EncryptedData = ''dGVzdA=='',
               VaultEntryResponse.Version = 1, VaultEntryResponse.UpdatedAt = 20,
               VaultEntryResponse.Deleted = False\<rparr>"
  have full: "Sync StdEncoding (all_ok 5000 100) ?tbl 1
             \<lparr>LastSyncedAt = None, SyncRequest.Entries = []\<rparr>
      = (Inr \<lparr>SyncedAt = 5000, SyncResponse.Entries = [?e2, ?e1], Skipped = 0\<rparr>, ?tbl)"
    by (simp add: eval_defs)
  have delta: "Sync StdEncoding (all_ok 5000 100) ?tbl 1
             \<lparr>LastSyncedAt = Some 20, SyncRequest.Entries = []\<rparr>
      = (Inr \<lparr>SyncedAt = 5000, SyncResponse.Entries = [?e1], Skipped = 0\<rparr>, ?tbl)"
    by (simp add: eval_defs)
  from Sync_outbound_entries [OF full]
  have "sorted (map VaultEntryResponse.UpdatedAt
                 (SyncResponse.Entries \<lparr>SyncedAt = 5000, SyncResponse.Entries = [?e2, ?e1],
                    Skipped = 0\<rparr>))"
    by blast
  then have s: "sorted [20, 50 :: int]" by simp
  have c: "LastSyncedAt \<lparr>LastSyncedAt = Some 20, SyncRequest.Entries = []\<rparr> = Some (20 :: int)"
    by simp
  note m = Sync_outbound_entries [OF delta, THEN conjunct2, THEN conjunct1, THEN spec, THEN mp, OF c]
  from full s delta m show ?thesis by simp
qed


subsection \<open>C6: SoftDelete\<close>

text \<open>
  C6. When its statement is executed, \<^verbatim>\<open>SoftDelete\<close> on a key that has a row with version
  \<open>N\<close> succeeds and leaves the row marked deleted with version \<open>N + 1\<close> (and stamped with
  the time of the statement); on a key that has no row it returns \<open>ErrEntryNotFound\<close> and
  leaves the table as it is. Whatever becomes of the statement, \<^verbatim>\<open>SoftDelete\<close> returns
  \<open>ErrEntryNotFound\<close> exactly when the statement is executed and the key has no row.
\<close>

theorem SoftDelete_marks_and_bumps:
  "(\<forall>r. find_row tbl uid eid = Some r \<longrightarrow>
      fst (SoftDelete (Executed now) tbl uid eid) = Inr ()
      \<and> find_row (snd (SoftDelete (Executed now) tbl uid eid)) uid eid
          = Some (r\<lparr>deleted := True, version := version r + 1, updated_at := now\<rparr>))
   \<and> (find_row tbl uid eid = None \<longrightarrow>
        SoftDelete (Executed now) tbl uid eid = (Inl ErrEntryNotFound, tbl))
   \<and> (fst (SoftDelete x tbl uid eid) = Inl ErrEntryNotFound
        \<longleftrightarrow> x \<noteq> Failed \<and> find_row tbl uid eid = None)"
  by (auto simp: SoftDelete_def Let_def find_row_def filter_empty_find find_softDelete
        softDelete_absent split: exec.splits)

text \<open>
  Witness for C6: the key \<open>e1\<close> is stored with version 4; deleting it gives version 5,
  marked deleted; deleting the key \<open>e2\<close>, which has no row, returns \<open>ErrEntryNotFound\<close>
  and changes nothing.
\<close>

theorem SoftDelete_marks_and_bumps_witness:
  "fst (SoftDelete (Executed 90)
          [\<lparr>user_id = 1, entry_id = ''e1'', encrypted_data = [9], version = 4,
            created_at = 10, updated_at = 50, deleted = False\<rparr>] 1 ''e1'') = Inr ()
   \<and> find_row (snd (SoftDelete (Executed 90)
          [\<lparr>user_id = 1, entry_id = ''e1'', encrypted_data = [9], version = 4,
            created_at = 10, updated_at = 50, deleted = False\<rparr>] 1 ''e1'')) 1 ''e1''
       = Some \<lparr>user_id = 1, entry_id = ''e1'', encrypted_data = [9], version = 5,
            created_at = 10, updated_at = 90, deleted = True\<rparr>
   \<and> SoftDelete (Executed 90)
          [\<lparr>user_id = 1, entry_id = ''e1'', encrypted_data = [9], version = 4,
            created_at = 10, updated_at = 50, deleted = False\<rparr>] 1 ''e2''
       = (Inl ErrEntryNotFound,
          [\<lparr>user_id = 1, entry_id = ''e1'', encrypted_data = [9], version = 4,
            created_at = 10, updated_at = 50, deleted = False\<rparr>])"
proof -
  let ?r = "\<lparr>user_id = 1, entry_id = ''e1'', encrypted_data = [9], version = 4,
            created_at = 10, updated_at = 50, deleted = False\<rparr>"
  have present: "find_row [?r] 1 ''e1'' = Some ?r"
    by (simp add: find_row_def key_is_def)
  have absent: "find_row [?r] 1 ''e2'' = None"
    by (simp add: find_row_def key_is_def)
  note a = SoftDelete_marks_and_bumps [where tbl = "[?r]" and uid = 1 and eid = "''e1''"
      and now = 90, THEN conjunct1, THEN spec, THEN mp, OF present]
  note b = SoftDelete_marks_and_bumps [where tbl = "[?r]" and uid = 1 and eid = "''e2''"
      and now = 90, THEN conjunct2, THEN conjunct1, THEN mp, OF absent]
  from a b show ?thesis by simp
qed

subsection \<open>C7: tombstones and cursors\<close>

text \<open>
  C7 says that a soft-deleted entry stays in the table as a tombstone and is returned by
  the change query for every cursor taken before its deletion. The row does stay
  (\<open>tombstone_kept_below_stamp\<close>: no statement removes a row), but the change query
  returns it only for the cursors below its stamp. The cursor a client holds is the
  \<^verbatim>\<open>synced_at\<close> of an earlier round, a reading of \<^verbatim>\<open>time.Now()\<close> with its fraction of a
  second; the stamp is \<^verbatim>\<open>CURRENT_TIMESTAMP\<close>, a whole second. A deletion that follows the
  cursor within the same second is stamped below the cursor, and
  \<^verbatim>\<open>updated_at > ?\<close> leaves it out. In the run below the service and the database read one
  clock, in nanoseconds: a first sync at 7.9 s hands out the cursor; the entry is deleted
  at 7.95 s and stamped 7 s; the next sync, with that cursor, returns no entry, although
  the row is in the table and marked deleted.
\<close>

theorem tombstone_missed_within_the_second:
  "fst (Sync StdEncoding (all_ok 7900000000 0)
          [\<lparr>user_id = 1, entry_id = ''e1'', encrypted_data = [116, 101, 115, 116], version = 1,
            created_at = 5000000000, updated_at = 5000000000, deleted = False\<rparr>] 1
          \<lparr>LastSyncedAt = None, SyncRequest.Entries = []\<rparr>)
     = Inr \<lparr>SyncedAt = 7900000000,
            SyncResponse.Entries =
              [\<lparr>VaultEntryResponse.EntryID = ''e1'', VaultEntryResponse.EncryptedData = ''dGVzdA=='',
                VaultEntryResponse.Version = 1, VaultEntryResponse.UpdatedAt = 5000000000,
                VaultEntryResponse.Deleted = False\<rparr>],
            Skipped = 0\<rparr>
   \<and> (7900000000 :: time) < 7950000000
   \<and> DeleteEntry (Executed (CURRENT_TIMESTAMP 7950000000))
          [\<lparr>user_id = 1, entry_id = ''e1'', encrypted_data = [116, 101, 115, 116], version = 1,
            created_at = 5000000000, updated_at = 5000000000, deleted = False\<rparr>] 1 ''e1''
       = (Inr (),
          [\<lparr>user_id = 1, entry_id = ''e1'', encrypted_data = [116, 101, 115, 116], version = 2,
            created_at = 5000000000, updated_at = 7000000000, deleted = True\<rparr>])
   \<and> fst (Sync StdEncoding (all_ok 9000000000 0)
          [\<lparr>user_id = 1, entry_id = ''e1'', encrypted_data = [116, 101, 115, 116], version = 2,
            created_at = 5000000000, updated_at = 7000000000, deleted = True\<rparr>] 1
          \<lparr>LastSyncedAt = Some 7900000000, SyncRequest.Entries = []\<rparr>)
     = Inr \<lparr>SyncedAt = 9000000000, SyncResponse.Entries = [], Skipped = 0\<rparr>"
  by (simp add: eval_defs DeleteEntry_def SoftDelete_def softDeleteQuery_def
        CURRENT_TIMESTAMP_def)

subsection \<open>C8: idempotence\<close>

text \<open>
  C8. Whatever the table holds, executing a write through \<open>Upsert\<close> a second time (at any
  clock reading) leaves the table exactly as the first execution left it.
\<close>

theorem Upsert_idempotent:
  "snd (Upsert (Executed t2) (snd (Upsert (Executed t1) tbl w)) w)
     = snd (Upsert (Executed t1) tbl w)"
  by (simp add: Upsert_def upsertQuery_twice)

text \<open>
  A run for C8: a write into the empty table, executed at times 10 and 20, leaves the one
  row of the first execution.
\<close>

theorem Upsert_idempotent_witness:
  "snd (Upsert (Executed 20) (snd (Upsert (Executed 10) [] (entry 1 ''e1'' [7] 1 False)))
          (entry 1 ''e1'' [7] 1 False))
   = [\<lparr>user_id = 1, entry_id = ''e1'', encrypted_data = [7], version = 1,
        created_at = 10, updated_at = 10, deleted = False\<rparr>]"
proof -
  have "snd (Upsert (Executed 10) [] (entry 1 ''e1'' [7] 1 False))
      = [\<lparr>user_id = 1, entry_id = ''e1'', encrypted_data = [7], version = 1,
        created_at = 10, updated_at = 10, deleted = False\<rparr>]"
    by (simp add: Upsert_def upsertQuery_def insert_row_def entry_def)
  with Upsert_idempotent [of 20 10 "[]" "entry 1 ''e1'' [7] 1 False"] show ?thesis
    by (rule trans)
qed

subsection \<open>C9: an incoming record without identifier\<close>

text \<open>
  C9 says that an incoming record whose \<^verbatim>\<open>entry_id\<close> is empty is skipped and counted.
  \<^verbatim>\<open>Sync\<close> has no such check (\<^verbatim>\<open>CreateEntry\<close> has one and returns \<open>ErrEntryIDRequired\<close>):
  the only records it skips are those whose payload does not decode or whose statement
  fails. The round below brings one record with an empty identifier and a payload that
  decodes; the record is stored under the empty identifier, it is sent back as an entry,
  and \<^verbatim>\<open>skipped\<close> is 0.
\<close>

theorem Sync_applies_empty_entry_id:
  "Sync StdEncoding (all_ok 5000 100) [] 1
     \<lparr>LastSyncedAt = None, SyncRequest.Entries = [request '''' ''dGVzdA=='' 1 False]\<rparr>
   = (Inr \<lparr>SyncedAt = 5000,
           SyncResponse.Entries =
             [\<lparr>VaultEntryResponse.EntryID = '''', VaultEntryResponse.EncryptedData = ''dGVzdA=='',
               VaultEntryResponse.Version = 1, VaultEntryResponse.UpdatedAt = 100,
               VaultEntryResponse.Deleted = False\<rparr>],
           Skipped = 0\<rparr>,
      [\<lparr>user_id = 1, entry_id = '''', encrypted_data = [116, 101, 115, 116], version = 1,
        created_at = 100, updated_at = 100, deleted = False\<rparr>])"
  by (simp add: eval_defs)

subsection \<open>C10: CreateEntry on a stored entry\<close>

text \<open>
  C10. Let the table satisfy its unique index and hold a row with version at least 1
  for the owner and the \<^verbatim>\<open>entry_id\<close> of a request that \<^verbatim>\<open>CreateEntry\<close> accepts (identifier
  and payload not empty, payload decodes to \<open>data\<close>), and let the upsert statement be
  executed. Then the table is unchanged, and \<^verbatim>\<open>CreateEntry\<close> returns no error but a
  response with version 1, the submitted payload (\<open>data\<close>, encoded again), the time of the
  call and \<^verbatim>\<open>deleted = false\<close>, whatever the stored row holds.
\<close>

theorem CreateEntry_existing_entry:
  assumes "unique_index tbl"
    and "find_row tbl userID (VaultEntryRequest.EntryID req) = Some r"
    and "1 \<le> version r"
    and "VaultEntryRequest.EntryID req \<noteq> []"
    and "VaultEntryRequest.EncryptedData req \<noteq> []"
    and "DecodeString enc (VaultEntryRequest.EncryptedData req) = Some data"
  shows "CreateEntry enc (Executed t) now tbl userID req =
           (Inr \<lparr>VaultEntryResponse.EntryID = VaultEntryRequest.EntryID req,
                 VaultEntryResponse.EncryptedData = EncodeToString enc data,
                 VaultEntryResponse.Version = 1,
                 VaultEntryResponse.UpdatedAt = now,
                 VaultEntryResponse.Deleted = False\<rparr>, tbl)"
proof -
  let ?entry = "\<lparr>UserID = userID, VaultEntry.EntryID = VaultEntryRequest.EntryID req,
                  VaultEntry.EncryptedData = data, VaultEntry.Version = 1,
                  CreatedAt = zero_time, VaultEntry.UpdatedAt = zero_time,
                  VaultEntry.Deleted = False\<rparr>"
  have "upsertQuery t tbl ?entry = tbl"
    using assms(1-3) by (intro upsertQuery_stale [where r = r]) simp_all
  with assms(4-6) show ?thesis
    by (simp add: CreateEntry_def Upsert_def Let_def)
qed

text \<open>
  Witness for C10: the key \<open>e1\<close> is stored with version 3, marked deleted, with payload
  \<open>[9]\<close>; \<^verbatim>\<open>CreateEntry\<close> for \<open>e1\<close> with the payload \<^verbatim>\<open>dGVzdA==\<close> answers with version 1 and
  that payload, and the table is as before.
\<close>

theorem CreateEntry_existing_entry_witness:
  "unique_index [\<lparr>user_id = 1, entry_id = ''e1'', encrypted_data = [9], version = 3,
       created_at = 10, updated_at = 20, deleted = True\<rparr>]
   \<and> find_row [\<lparr>user_id = 1, entry_id = ''e1'', encrypted_data = [9], version = 3,
       created_at = 10, updated_at = 20, deleted = True\<rparr>] 1 ''e1''
       = Some \<lparr>user_id = 1, entry_id = ''e1'', encrypted_data = [9], version = 3,
       created_at = 10, updated_at = 20, deleted = True\<rparr>
   \<and> DecodeString StdEncoding ''dGVzdA=='' = Some [116, 101, 115, 116]
   \<and> CreateEntry StdEncoding (Executed 90) 5000
        [\<lparr>user_id = 1, entry_id = ''e1'', encrypted_data = [9], version = 3,
          created_at = 10, updated_at = 20, deleted = True\<rparr>] 1
        (request ''e1'' ''dGVzdA=='' 0 False)
     = (Inr \<lparr>VaultEntryResponse.EntryID = ''e1'',
             VaultEntryResponse.EncryptedData = ''dGVzdA=='',
             VaultEntryResponse.Version = 1,
             VaultEntryResponse.UpdatedAt = 5000,
             VaultEntryResponse.Deleted = False\<rparr>,
        [\<lparr>user_id = 1, entry_id = ''e1'', encrypted_data = [9], version = 3,
          created_at = 10, updated_at = 20, deleted = True\<rparr>])"
proof -
  let ?r = "\<lparr>user_id = 1, entry_id = ''e1'', encrypted_data = [9], version = 3,
       created_at = 10, updated_at = 20, deleted = True\<rparr>"
  let ?req = "request ''e1'' ''dGVzdA=='' 0 False"
  have h1: "unique_index [?r]" by (simp add: unique_index_def)
  have h2: "find_row [?r] 1 (VaultEntryRequest.EntryID ?req) = Some ?r"
    by (simp add: find_row_def key_is_def request_def)
  have h3: "1 \<le> version ?r" by simp
  have h4: "VaultEntryRequest.EntryID ?req \<noteq> []" by (simp add: request_def)
  have h5: "VaultEntryRequest.EncryptedData ?req \<noteq> []" by (simp add: request_def)
  have h6: "DecodeString StdEncoding (VaultEntryRequest.EncryptedData ?req)
              = Some [116, 101, 115, 116]"
    by (simp add: request_def StdEncoding_def encodeStd_def quantum_def)
  have enc: "EncodeToString StdEncoding [116, 101, 115, 116] = ''dGVzdA==''"
    by (simp add: StdEncoding_def encodeStd_def)
  have id: "VaultEntryRequest.EntryID ?req = ''e1''"
     "VaultEntryRequest.EncryptedData ?req = ''dGVzdA==''"
    by (simp_all add: request_def)
  from CreateEntry_existing_entry [OF h1 h2 h3 h4 h5 h6, of 90 5000] h1 h2 h6
  show ?thesis unfolding enc id by blast
qed

end
